(* ===== verification/Leibrix_Prelude.thy ===== *)
theory Leibrix_Prelude
  imports Main "HOL-Library.Word" "HOL-Library.Char_ord" "HOL-Library.List_Lexorder"
begin

text \<open>
  What every component of the development shares: the results of a Go function (a value, an
  \<open>error\<close>, a run-time panic), the rendering of integers that \<open>fmt.Sprintf\<close> uses for \<open>%d\<close>,
  and generic facts about strings, integer division and lists.

  A Go \<open>string\<close> is a sequence of bytes, which is what \<^typ>\<open>string\<close> (a list of 8-bit
  characters) is.  A Go \<open>error\<close> is represented by the text of its message, so that a wrapped
  error (\<open>fmt.Errorf("...: %w", err)\<close>) is a prefix in front of the message of the inner one.
\<close>

subsection \<open>Collections\<close>

named_theorems xmap_simps \<open>evaluation of the concurrent map on finite maps\<close>

subsection \<open>Results of Go functions\<close>

type_synonym go_error = string

datatype 'a outcome = Ok 'a | Err go_error | Panic string

fun is_Ok :: "'a outcome \<Rightarrow> bool" where
  "is_Ok (Ok x) = True"
| "is_Ok (Err e) = False"
| "is_Ok (Panic p) = False"

text \<open>The message of the run-time panic for a field access through a nil pointer.\<close>

definition nil_deref :: string where
  "nil_deref = ''invalid memory address or nil pointer dereference''"

lemma is_Ok_iff: "is_Ok r \<longleftrightarrow> (\<exists>x. r = Ok x)"
  by (cases r) auto

subsection \<open>Integer division\<close>

lemma int_div_step:
  fixes y k :: int
  assumes "0 < k"
  shows "y div k = (y - 1) div k + (if y mod k = 0 then 1 else 0)"
proof -
  define q where "q = y div k"
  define r where "r = y mod k"
  have y: "y = k * q + r" and r: "0 \<le> r" "r < k"
    using assms by (auto simp: q_def r_def)
  show ?thesis
  proof (cases "r = 0")
    case True
    have "(y - 1) div k = q - 1"
      by (rule int_div_pos_eq [where r = "k - 1"]) (use y True assms in \<open>auto simp: algebra_simps\<close>)
    then show ?thesis using True by (simp add: q_def r_def)
  next
    case False
    have "(y - 1) div k = q"
      by (rule int_div_pos_eq [where r = "r - 1"]) (use y False r in auto)
    then show ?thesis using False by (simp add: q_def r_def)
  qed
qed

lemma mod_zero_trans:
  fixes y m d k :: int
  assumes "y mod m = 0" and "m = d * k"
  shows "y mod d = 0"
  using assms by (auto simp: mod_eq_0_iff_dvd)

text \<open>A sequence of integers that grows at every index is strictly monotone.\<close>

lemma int_strict_mono_step:
  fixes f :: "int \<Rightarrow> int"
  assumes step: "\<And>i. f i < f (i + 1)" and "i < j"
  shows "f i < f j"
proof -
  have "f i < f (i + int (Suc n))" for n
  proof (induction n)
    case 0
    show ?case using step [of i] by simp
  next
    case (Suc n)
    then show ?case using step [of "i + int (Suc n)"] by (simp add: algebra_simps)
  qed
  from this [of "nat (j - i - 1)"] \<open>i < j\<close> show ?thesis by simp
qed

text \<open>The intervals between the members of a strictly increasing sequence are disjoint and leave no gap.\<close>

lemma unique_interval:
  fixes f :: "nat \<Rightarrow> 'a::linorder"
  assumes step: "\<And>i. f i < f (Suc i)" and "f 0 \<le> x" and "x < f n"
  shows "\<exists>!i. i < n \<and> f i \<le> x \<and> x < f (Suc i)"
proof -
  have mono: "f i \<le> f j" if "i \<le> j" for i j
    using lift_Suc_mono_le [of f, OF less_imp_le [OF step] that] .
  have "\<exists>i<n. f i \<le> x \<and> x < f (Suc i)"
    using assms(2,3)
  proof (induction n)
    case 0
    then show ?case by simp
  next
    case (Suc n)
    show ?case
    proof (cases "x < f n")
      case True
      with Suc obtain i where "i < n" "f i \<le> x" "x < f (Suc i)" by auto
      then show ?thesis by (intro exI [of _ i]) simp
    next
      case False
      with Suc.prems show ?thesis by (intro exI [of _ n]) simp
    qed
  qed
  moreover have "i = j" if "f i \<le> x" "x < f (Suc i)" "f j \<le> x" "x < f (Suc j)" for i j
  proof (rule ccontr)
    assume "i \<noteq> j"
    then consider "Suc i \<le> j" | "Suc j \<le> i" by linarith
    then show False
    proof cases
      case 1
      from mono [OF this] that show False by simp
    next
      case 2
      from mono [OF this] that show False by simp
    qed
  qed
  ultimately show ?thesis by auto
qed

subsection \<open>Decimal rendering\<close>

text \<open>\<open>%d\<close> of \<open>fmt.Sprintf\<close>: decimal digits, with a minus sign in front of a negative value.\<close>

definition digit_char :: "nat \<Rightarrow> char" where
  "digit_char d = char_of (48 + d)"

fun string_of_nat :: "nat \<Rightarrow> string" where
  "string_of_nat n =
     (if n < 10 then [digit_char n] else string_of_nat (n div 10) @ [digit_char (n mod 10)])"

declare string_of_nat.simps [simp del]

definition string_of_int :: "int \<Rightarrow> string" where
  "string_of_int i = (if i < 0 then CHR ''-'' # string_of_nat (nat (- i)) else string_of_nat (nat i))"

lemma of_char_digit: "d < 10 \<Longrightarrow> (of_char (digit_char d) :: nat) = 48 + d"
  by (simp add: digit_char_def)

lemma digit_char_inj: "a < 10 \<Longrightarrow> b < 10 \<Longrightarrow> digit_char a = digit_char b \<longleftrightarrow> a = b"
  by (metis add_left_cancel of_char_digit)

lemma digit_char_less: "a < 10 \<Longrightarrow> b < 10 \<Longrightarrow> digit_char a < digit_char b \<longleftrightarrow> a < b"
  by (simp add: less_char_def of_char_digit)

lemma string_of_nat_digits: "c \<in> set (string_of_nat n) \<Longrightarrow> \<exists>d < 10. c = digit_char d"
proof (induction n rule: string_of_nat.induct)
  case (1 n)
  have "\<exists>d < 10. digit_char (n mod 10) = digit_char d"
    by (rule exI [of _ "n mod 10"]) simp
  with "1" show ?case
    by (auto simp: string_of_nat.simps [of n] split: if_splits)
qed

lemma string_of_nat_not_Nil [simp]: "string_of_nat n \<noteq> []" "[] \<noteq> string_of_nat n"
  by (subst string_of_nat.simps, simp)+

lemma string_of_nat_inj: "string_of_nat m = string_of_nat n \<Longrightarrow> m = n"
proof (induction m arbitrary: n rule: string_of_nat.induct)
  case (1 m)
  show ?case
  proof (cases "m < 10 \<or> n < 10")
    case True
    with "1.prems" show ?thesis
      by (auto simp: string_of_nat.simps [of m] string_of_nat.simps [of n] digit_char_inj split: if_splits)
  next
    case False
    with "1.prems" have "string_of_nat (m div 10) = string_of_nat (n div 10)" and "m mod 10 = n mod 10"
      by (auto simp: string_of_nat.simps [of m] string_of_nat.simps [of n] digit_char_inj)
    with False "1.IH" have "m div 10 = n div 10" by auto
    with \<open>m mod 10 = n mod 10\<close> show ?thesis by (metis div_mult_mod_eq)
  qed
qed

lemma minus_not_digit: "d < 10 \<Longrightarrow> digit_char d \<noteq> CHR ''-''"
  using of_char_digit [of d] by auto

lemma underscore_not_digit: "d < 10 \<Longrightarrow> digit_char d \<noteq> CHR ''_''"
  using of_char_digit [of d] by auto

lemma string_of_int_chars:
  "c \<in> set (string_of_int i) \<Longrightarrow> c = CHR ''-'' \<or> (\<exists>d < 10. c = digit_char d)"
  by (auto simp: string_of_int_def dest: string_of_nat_digits split: if_splits)

lemma string_of_int_no_underscore: "CHR ''_'' \<notin> set (string_of_int i)"
  using underscore_not_digit by (fastforce dest: string_of_int_chars)

lemma string_of_int_inj [simp]: "string_of_int i = string_of_int j \<longleftrightarrow> i = j"
proof
  assume eq: "string_of_int i = string_of_int j"
  have minus: "CHR ''-'' # xs \<noteq> string_of_nat n" for xs n
    using minus_not_digit string_of_nat_digits [of "CHR ''-''" n] by (metis list.set_intros(1))
  show "i = j"
    using eq minus minus [symmetric]
    by (auto simp: string_of_int_def dest: string_of_nat_inj split: if_splits)
qed simp

subsection \<open>Strings joined at a separator\<close>

text \<open>
  Two strings \<open>a @ c # b\<close> with no \<open>c\<close> in the part before the separator are equal only when
  both parts are: the fact behind every composite key of the program.
\<close>

lemma append_sep_inj:
  assumes "c \<notin> set a" and "c \<notin> set a'" and "a @ c # b = a' @ c # b'"
  shows "a = a' \<and> b = b'"
  using assms
proof (induction a arbitrary: a')
  case Nil
  then show ?case by (cases a') auto
next
  case (Cons x a)
  then show ?case by (cases a') auto
qed

subsection \<open>Reachable states\<close>

text \<open>
  Concurrent components are step relations: every interleaving of their goroutines is a sequence of
  steps, and an invariant holds in every reachable state if it holds initially and every step keeps it.
\<close>

inductive reachable :: "('s \<Rightarrow> bool) \<Rightarrow> ('s \<Rightarrow> 's \<Rightarrow> bool) \<Rightarrow> 's \<Rightarrow> bool" for init step where
  reachable_init: "init s \<Longrightarrow> reachable init step s"
| reachable_step: "reachable init step s \<Longrightarrow> step s s' \<Longrightarrow> reachable init step s'"

lemma reachable_invariant:
  assumes "reachable init step s"
    and "\<And>s. init s \<Longrightarrow> I s"
    and "\<And>s s'. reachable init step s \<Longrightarrow> I s \<Longrightarrow> step s s' \<Longrightarrow> I s'"
  shows "I s"
  using assms(1) by induction (auto intro: assms(2,3))

end
