(* ===== verification/Calendar.thy ===== *)
theory Calendar
  imports Leibrix_Prelude
begin

text \<open>
  The part of Go's package \<open>time\<close> that the epoch generator uses, on instants in UTC: an instant
  is the number of nanoseconds since the Unix epoch, and the civil date of an instant is its date
  in the proleptic Gregorian calendar.  Days are numbered from Monday 0001-01-01, the zero time of
  the package.  The theory proves that the date of a day and the day of a date are inverse to each
  other and that the first days of the months are strictly increasing; the epoch generator's
  calendar arithmetic rests on these two facts.
\<close>

type_synonym time = int

abbreviation hour_ns :: int where "hour_ns \<equiv> 3600000000000"
abbreviation day_ns :: int where "day_ns \<equiv> 86400000000000"

text \<open>The day number of 1970-01-01.\<close>

abbreviation unix_epoch_day :: int where "unix_epoch_day \<equiv> 719162"

subsection \<open>Years\<close>

definition is_leap :: "int \<Rightarrow> bool" where
  "is_leap y \<longleftrightarrow> y mod 4 = 0 \<and> (y mod 100 \<noteq> 0 \<or> y mod 400 = 0)"

text \<open>The number of the first day of a year.\<close>

definition year_start :: "int \<Rightarrow> int" where
  "year_start y = 365 * (y - 1) + (y - 1) div 4 - (y - 1) div 100 + (y - 1) div 400"

text \<open>
  The year of a day: whole cycles of 400 years, then of 100, 4 and 1, with the last century of a
  cycle and the last year of four capped at three, as they have one day more.
\<close>

definition year_of :: "int \<Rightarrow> int" where
  "year_of n =
     (let a = n div 146097; r = n mod 146097;
          b = min 3 (r div 36524); r1 = r - 36524 * b;
          c = r1 div 1461; r2 = r1 mod 1461;
          d = min 3 (r2 div 365)
      in 400 * a + 100 * b + 4 * c + d + 1)"

lemma year_start_Suc: "year_start (y + 1) = year_start y + (if is_leap y then 366 else 365)"
proof -
  have count: "365 * y + d4 - d100 + d400 = 365 * (y - 1) + e4 - e100 + e400 + (if P \<and> (\<not> Q \<or> R) then 366 else 365)"
    if "d4 = e4 + (if P then 1 else 0)" "d100 = e100 + (if Q then 1 else 0)"
      "d400 = e400 + (if R then 1 else 0)" "Q \<Longrightarrow> P" "R \<Longrightarrow> Q"
    for d4 d100 d400 e4 e100 e400 :: int and P Q R
    unfolding that(1-3) using that(4,5) by (cases P; cases Q; cases R) simp_all
  have dvd: "y mod 100 = 0 \<Longrightarrow> y mod 4 = 0" "y mod 400 = 0 \<Longrightarrow> y mod 100 = 0"
    by (erule mod_zero_trans [where k = 25], simp) (erule mod_zero_trans [where k = 4], simp)
  have step: "y div k = (y - 1) div k + (if y mod k = 0 then 1 else 0)" if "0 < k" for k
    using that by (rule int_div_step)
  have "365 * y + y div 4 - y div 100 + y div 400 =
      365 * (y - 1) + (y - 1) div 4 - (y - 1) div 100 + (y - 1) div 400
      + (if y mod 4 = 0 \<and> (\<not> y mod 100 = 0 \<or> y mod 400 = 0) then 366 else 365)"
    by (rule count [OF step step step]) (simp, simp, simp, erule dvd(1), erule dvd(2))
  then show ?thesis by (simp only: year_start_def is_leap_def add_diff_cancel_right')
qed

lemma year_start_less: "y < y' \<Longrightarrow> year_start y < year_start y'"
  by (rule int_strict_mono_step) (simp add: year_start_Suc)

lemma year_start_cycles:
  assumes "0 \<le> b" "b \<le> 3" "0 \<le> c" "c \<le> 24" "0 \<le> d" "d \<le> 3"
  shows "year_start (400 * a + 100 * b + 4 * c + d + 1) = 146097 * a + 36524 * b + 1461 * c + 365 * d"
proof -
  have "(400 * a + 100 * b + 4 * c + d) div 4 = 100 * a + 25 * b + c"
    by (rule int_div_pos_eq [where r = d]) (use assms in auto)
  moreover have "(400 * a + 100 * b + 4 * c + d) div 100 = 4 * a + b"
    by (rule int_div_pos_eq [where r = "4 * c + d"]) (use assms in auto)
  moreover have "(400 * a + 100 * b + 4 * c + d) div 400 = a"
    by (rule int_div_pos_eq [where r = "100 * b + 4 * c + d"]) (use assms in auto)
  ultimately show ?thesis by (simp add: year_start_def)
qed

lemma is_leap_intros:
  "y mod 4 = 0 \<Longrightarrow> y mod 100 = k \<Longrightarrow> k \<noteq> 0 \<Longrightarrow> is_leap y"
  "y mod 4 = 0 \<Longrightarrow> y mod 400 = 0 \<Longrightarrow> is_leap y"
  unfolding is_leap_def by metis+

text \<open>The last year of four is a leap year, unless it ends a century that does not end a cycle.\<close>

lemma is_leap_last_of_four:
  assumes "0 \<le> b" "b \<le> 3" "0 \<le> c" "c \<le> 24" "c < 24 \<or> b = 3"
  shows "is_leap (400 * a + 100 * b + 4 * c + 3 + 1)"
proof -
  define y where "y = 400 * a + 100 * b + 4 * c + 3 + 1"
  have "y = 4 * (100 * a + 25 * b + c + 1)" by (simp add: y_def)
  then have four: "y mod 4 = 0" by simp
  have "is_leap y"
  proof (cases "c < 24")
    case True
    have "y mod 100 = 4 * c + 4"
      by (rule int_mod_pos_eq [where q = "4 * a + b"]) (use True assms y_def in auto)
    moreover have "4 * c + 4 \<noteq> 0" using assms by linarith
    ultimately show ?thesis by (rule is_leap_intros(1) [OF four])
  next
    case False
    with assms have "c = 24" "b = 3" by auto
    then have "y = 400 * (a + 1)" by (simp add: y_def)
    then have "y mod 400 = 0" by simp
    then show ?thesis by (rule is_leap_intros(2) [OF four])
  qed
  then show ?thesis by (simp add: y_def)
qed

text \<open>A quotient capped at three, when at most one unit is left over above four full divisors.\<close>

lemma capped_quotient:
  fixes r k :: int
  assumes "0 < k" "0 \<le> r" "r \<le> 4 * k"
  defines "b \<equiv> min 3 (r div k)"
  shows "0 \<le> b" "b \<le> 3" "k * b \<le> r" "r < k * b + k \<or> b = 3 \<and> r = 4 * k"
proof -
  define q where "q = r div k"
  define m where "m = r mod k"
  have "r = k * q + m" "0 \<le> m" "m < k" "0 \<le> q"
    using assms by (auto simp: q_def m_def pos_imp_zdiv_nonneg_iff)
  then have q: "k * q \<le> r" "r < k * q + k" "0 \<le> q" by auto
  show "0 \<le> b" "b \<le> 3" using q by (auto simp: b_def simp flip: q_def)
  have "k * b \<le> k * q" using \<open>0 < k\<close> by (simp add: b_def q_def)
  then show "k * b \<le> r" using q(1) by (rule order_trans)
  show "r < k * b + k \<or> b = 3 \<and> r = 4 * k"
    using q assms(1-3) mult_left_mono [of 4 q k] by (cases "q \<le> 3") (auto simp: b_def min_def simp flip: q_def)
qed

lemma year_of_bounds: "year_start (year_of n) \<le> n \<and> n < year_start (year_of n + 1)"
proof -
  define a where "a = n div 146097"
  define r where "r = n mod 146097"
  define b where "b = min 3 (r div 36524)"
  define r1 where "r1 = r - 36524 * b"
  define c where "c = r1 div 1461"
  define r2 where "r2 = r1 mod 1461"
  define d where "d = min 3 (r2 div 365)"
  have "0 \<le> r" "r \<le> 4 * 36524" using pos_mod_bound [of 146097 n] by (auto simp: r_def)
  note b = capped_quotient [of 36524, OF _ this, folded b_def, simplified]
  have r1: "0 \<le> r1" "r1 \<le> 36524" "b < 3 \<Longrightarrow> r1 < 36524"
    using b by (auto simp: r1_def)
  have c: "0 \<le> c" "c \<le> 24"
    using r1 zdiv_mono1 [of r1 36524 1461] by (auto simp: c_def pos_imp_zdiv_nonneg_iff)
  have "0 \<le> r2" "r2 \<le> 4 * 365" using pos_mod_bound [of 1461 r1] by (auto simp: r2_def)
  note d = capped_quotient [of 365, OF _ this, folded d_def, simplified]
  have r1_eq: "r1 = 1461 * c + r2" by (simp add: c_def r2_def)
  have n: "n = 146097 * a + 36524 * b + 1461 * c + r2"
    unfolding a_def c_def r2_def r1_def r_def by simp
  have y: "year_of n = 400 * a + 100 * b + 4 * c + d + 1"
    by (simp add: year_of_def Let_def a_def r_def b_def r1_def c_def r2_def d_def)
  have s: "year_start (year_of n) = 146097 * a + 36524 * b + 1461 * c + 365 * d"
    unfolding y by (rule year_start_cycles) (use b c d in auto)
  have "is_leap (year_of n)" if "d = 3" "r2 = 1460"
    unfolding y that(1)
    by (rule is_leap_last_of_four) (use b c r1 r1_eq that in auto)
  then have "r2 < 365 * d + (if is_leap (year_of n) then 366 else 365)"
    using d(4) by auto
  with d(3) n s year_start_Suc [of "year_of n"] show ?thesis by linarith
qed

lemma year_of_eq: "year_start y \<le> n \<Longrightarrow> n < year_start (y + 1) \<Longrightarrow> year_of n = y"
proof (rule ccontr)
  assume y: "year_start y \<le> n" "n < year_start (y + 1)" and "year_of n \<noteq> y"
  then consider "year_of n + 1 \<le> y" | "y + 1 \<le> year_of n" by linarith
  then show False
  proof cases
    case 1
    then have "year_start (year_of n + 1) \<le> year_start y"
      using year_start_less [of "year_of n + 1" y] by (cases "year_of n + 1 = y") auto
    with y year_of_bounds [of n] show False by auto
  next
    case 2
    then have "year_start (y + 1) \<le> year_start (year_of n)"
      using year_start_less [of "y + 1" "year_of n"] by (cases "y + 1 = year_of n") auto
    with y year_of_bounds [of n] show False by auto
  qed
qed

subsection \<open>Months\<close>

text \<open>The days of a year before the first of month \<open>m\<close>, for \<open>m\<close> from 1 to 13.\<close>

definition days_before :: "bool \<Rightarrow> int \<Rightarrow> int" where
  "days_before leap m =
     [0, 31, 59, 90, 120, 151, 181, 212, 243, 273, 304, 334, 365] ! nat (m - 1)
     + (if leap \<and> 2 < m then 1 else 0)"

text \<open>The month of a day of the year (days of the year count from 0).\<close>

definition month_of :: "bool \<Rightarrow> int \<Rightarrow> int" where
  "month_of leap yday =
     (if yday < days_before leap 2 then 1 else if yday < days_before leap 3 then 2
      else if yday < days_before leap 4 then 3 else if yday < days_before leap 5 then 4
      else if yday < days_before leap 6 then 5 else if yday < days_before leap 7 then 6
      else if yday < days_before leap 8 then 7 else if yday < days_before leap 9 then 8
      else if yday < days_before leap 10 then 9 else if yday < days_before leap 11 then 10
      else if yday < days_before leap 12 then 11 else 12)"

lemma days_before_values:
  "days_before l 1 = 0" "days_before l 2 = 31" "days_before l 3 = 59 + of_bool l"
  "days_before l 4 = 90 + of_bool l" "days_before l 5 = 120 + of_bool l"
  "days_before l 6 = 151 + of_bool l" "days_before l 7 = 181 + of_bool l"
  "days_before l 8 = 212 + of_bool l" "days_before l 9 = 243 + of_bool l"
  "days_before l 10 = 273 + of_bool l" "days_before l 11 = 304 + of_bool l"
  "days_before l 12 = 334 + of_bool l" "days_before l 13 = 365 + of_bool l"
  by (simp_all add: days_before_def)

lemma month_range_cases:
  "1 \<le> m \<Longrightarrow> m \<le> 12 \<Longrightarrow>
    m = 1 \<or> m = 2 \<or> m = 3 \<or> m = 4 \<or> m = 5 \<or> m = 6 \<or> m = 7 \<or> m = 8 \<or> m = 9 \<or> m = 10 \<or> m = 11 \<or> m = (12::int)"
  by presburger

lemma days_before_step:
  assumes "1 \<le> m" "m \<le> 12"
  shows "days_before l m + 28 \<le> days_before l (m + 1)" "days_before l (m + 1) \<le> days_before l m + 31"
  using month_range_cases [OF assms] by (auto simp: days_before_values)

lemma month_of_bounds:
  assumes "0 \<le> yday" "yday < 365 + of_bool l"
  shows "1 \<le> month_of l yday" "month_of l yday \<le> 12"
    "days_before l (month_of l yday) \<le> yday" "yday < days_before l (month_of l yday + 1)"
  using assms by (simp_all add: month_of_def days_before_values)

lemma month_of_eq:
  assumes "1 \<le> m" "m \<le> 12" "days_before l m \<le> yday" "yday < days_before l (m + 1)"
  shows "month_of l yday = m"
  using month_range_cases [OF assms(1,2)] assms(3,4)
  by (auto simp: month_of_def days_before_values)

subsection \<open>Dates\<close>

text \<open>The civil date of a day: year, month and day of the month.\<close>

definition date_of :: "int \<Rightarrow> int \<times> int \<times> int" where
  "date_of n =
     (let y = year_of n; yday = n - year_start y; m = month_of (is_leap y) yday
      in (y, m, yday - days_before (is_leap y) m + 1))"

text \<open>
  The day of a date as \<open>time.Date\<close> computes it: a month outside 1 to 12 carries into the year, a
  day outside the month simply counts on from the first.
\<close>

definition day_of_date :: "int \<Rightarrow> int \<Rightarrow> int \<Rightarrow> int" where
  "day_of_date y m d =
     (let y' = y + (m - 1) div 12; m' = (m - 1) mod 12 + 1
      in year_start y' + days_before (is_leap y') m' + (d - 1))"

text \<open>The first day of a month, months numbered through all years.\<close>

definition month_start :: "int \<Rightarrow> int" where
  "month_start i = year_start (i div 12) + days_before (is_leap (i div 12)) (i mod 12 + 1)"

lemma day_of_date_month: "day_of_date y m d = month_start (12 * y + (m - 1)) + (d - 1)"
  by (simp add: day_of_date_def month_start_def Let_def)

lemma year_days: "days_before (is_leap y) 13 = year_start (y + 1) - year_start y"
  by (simp add: year_start_Suc days_before_values)

lemma month_start_step: "month_start i + 28 \<le> month_start (i + 1)"
proof -
  define y where "y = i div 12"
  define k where "k = i mod 12"
  have i: "i = 12 * y + k" "0 \<le> k" "k < 12" by (auto simp: y_def k_def)
  have start: "month_start i = year_start y + days_before (is_leap y) (k + 1)"
    by (simp add: month_start_def y_def k_def)
  have step: "days_before (is_leap y) (k + 1) + 28 \<le> days_before (is_leap y) (k + 2)"
    using days_before_step(1) [of "k + 1" "is_leap y"] i by (simp add: add.assoc)
  show ?thesis
  proof (cases "k = 11")
    case True
    then have "i + 1 = 12 * (y + 1)" using i by simp
    then have "month_start (i + 1) = year_start (y + 1)"
      by (simp add: month_start_def days_before_values add.commute)
    with True start step year_days [of y] show ?thesis by simp
  next
    case False
    then have "(i + 1) div 12 = y" and "(i + 1) mod 12 = k + 1"
      using i by (auto intro: int_div_pos_eq [where r = "k + 1"] int_mod_pos_eq [where q = y])
    then have "month_start (i + 1) = year_start y + days_before (is_leap y) (k + 2)"
      by (simp add: month_start_def add.commute)
    with start step show ?thesis by simp
  qed
qed

lemma month_start_less:
  assumes "i < j"
  shows "month_start i < month_start j"
proof (rule int_strict_mono_step [OF _ assms])
  show "month_start k < month_start (k + 1)" for k
    using month_start_step [of k] by linarith
qed

lemma month_start_in_year:
  assumes "1 \<le> m" "m \<le> 12"
  shows "month_start (12 * y + (m - 1)) = year_start y + days_before (is_leap y) m"
proof -
  have "(12 * y + (m - 1)) div 12 = y" and "(12 * y + (m - 1)) mod 12 = m - 1"
    using assms by (auto intro: int_div_pos_eq [where r = "m - 1"] int_mod_pos_eq [where q = y])
  then show ?thesis by (simp add: month_start_def)
qed

text \<open>The day of the date of a day is that day again.\<close>

lemma day_of_date_of:
  assumes "date_of n = (y, m, d)"
  shows "day_of_date y m d = n" "1 \<le> m" "m \<le> 12" "1 \<le> d"
proof -
  define yday where "yday = n - year_start (year_of n)"
  have y: "y = year_of n" and m: "m = month_of (is_leap y) yday"
    and d: "d = yday - days_before (is_leap y) m + 1"
    using assms by (auto simp: date_of_def Let_def yday_def)
  have "0 \<le> yday" "yday < 365 + of_bool (is_leap y)"
    using year_of_bounds [of n] by (auto simp: y yday_def year_start_Suc of_bool_def)
  note mb = month_of_bounds [OF this, folded m]
  show "1 \<le> m" "m \<le> 12" "1 \<le> d" using mb d by auto
  then show "day_of_date y m d = n"
    by (simp add: day_of_date_month month_start_in_year d y yday_def)
qed

text \<open>The date of the first day of a month is the first of that month.\<close>

lemma date_of_month_start: "date_of (month_start i) = (i div 12, i mod 12 + 1, 1)"
proof -
  let ?y = "i div 12" and ?m = "i mod 12 + 1"
  let ?b = "days_before (is_leap ?y)"
  have m: "1 \<le> ?m" "?m \<le> 12" by auto
  have step: "?b ?m < ?b (?m + 1)"
    using days_before_step(1) [OF m, of "is_leap ?y"] by linarith
  have bounds: "0 \<le> ?b ?m" "?b (?m + 1) \<le> ?b 13"
    using month_range_cases [OF m] by (auto simp: days_before_values)
  have y: "year_of (month_start i) = ?y"
    by (rule year_of_eq) (use bounds step year_days [of ?y] in \<open>auto simp: month_start_def\<close>)
  have "month_of (is_leap ?y) (?b ?m) = ?m"
    by (rule month_of_eq) (use m step in auto)
  moreover have "month_start i - year_start ?y = ?b ?m" by (simp add: month_start_def)
  ultimately show ?thesis by (simp add: date_of_def Let_def y)
qed

text \<open>The first of the month of a day is the last month start not after it.\<close>

lemma month_start_of_date:
  assumes "date_of n = (y, m, d)"
  shows "month_start (12 * y + (m - 1)) \<le> n" "n < month_start (12 * y + m)"
proof -
  note n = day_of_date_of [OF assms]
  show "month_start (12 * y + (m - 1)) \<le> n"
    using n by (simp add: day_of_date_month)
  define yday where "yday = n - year_start (year_of n)"
  have y: "y = year_of n" and m: "m = month_of (is_leap y) yday"
    using assms by (auto simp: date_of_def Let_def yday_def)
  have "0 \<le> yday" "yday < 365 + of_bool (is_leap y)"
    using year_of_bounds [of n] by (auto simp: y yday_def year_start_Suc of_bool_def)
  then have "n < year_start y + days_before (is_leap y) (m + 1)"
    using month_of_bounds(4) by (fastforce simp: y m yday_def)
  moreover have "month_start (12 * y + m) = year_start y + days_before (is_leap y) (m + 1)"
  proof (cases "m = 12")
    case True
    then have "month_start (12 * y + m) = year_start (y + 1)"
      using month_start_in_year [of 1 "y + 1"] by (simp add: days_before_values algebra_simps)
    then show ?thesis using True year_days [of y] by simp
  next
    case False
    then show ?thesis using month_start_in_year [of "m + 1" y] n by simp
  qed
  ultimately show "n < month_start (12 * y + m)" by simp
qed

subsection \<open>Instants\<close>

text \<open>
  \<open>time.Date\<close> in UTC (the clock given as nanoseconds into the day), \<open>Time.AddDate\<close>, the weekday
  with Sunday as 0, and \<open>Time.Truncate\<close>, which rounds down to a multiple of the duration since the
  zero time.
\<close>

definition day_number :: "time \<Rightarrow> int" where
  "day_number t = t div day_ns + unix_epoch_day"

definition clock_ns :: "time \<Rightarrow> int" where
  "clock_ns t = t mod day_ns"

definition time_Date :: "int \<Rightarrow> int \<Rightarrow> int \<Rightarrow> int \<Rightarrow> time" where
  "time_Date y m d clock = (day_of_date y m d - unix_epoch_day) * day_ns + clock"

definition time_AddDate :: "time \<Rightarrow> int \<Rightarrow> int \<Rightarrow> int \<Rightarrow> time" where
  "time_AddDate t years months days =
     (case date_of (day_number t) of (y, m, d) \<Rightarrow>
        time_Date (y + years) (m + months) (d + days) (clock_ns t))"

definition time_Weekday :: "time \<Rightarrow> int" where
  "time_Weekday t = (day_number t + 1) mod 7"

definition time_Truncate :: "time \<Rightarrow> int \<Rightarrow> time" where
  "time_Truncate t d = (if d \<le> 0 then t else t - (t + unix_epoch_day * day_ns) mod d)"

text \<open>The instant at which a day starts.\<close>

definition day_start :: "int \<Rightarrow> time" where
  "day_start n = (n - unix_epoch_day) * day_ns"

lemma day_start_le_iff [simp]: "day_start m \<le> day_start n \<longleftrightarrow> m \<le> n"
  by (simp add: day_start_def)

lemma day_start_less_iff [simp]: "day_start m < day_start n \<longleftrightarrow> m < n"
  by (simp add: day_start_def)

lemma day_number_start [simp]: "day_number (day_start n) = n"
  by (simp add: day_number_def day_start_def)

lemma clock_ns_start [simp]: "clock_ns (day_start n) = 0"
  by (simp add: clock_ns_def day_start_def)

lemma time_split: "t = day_start (day_number t) + clock_ns t"
  by (simp add: day_start_def day_number_def clock_ns_def)

lemma clock_ns_range: "0 \<le> clock_ns t" "clock_ns t < day_ns"
  by (simp_all add: clock_ns_def)

lemma day_number_bounds: "day_start (day_number t) \<le> t" "t < day_start (day_number t + 1)"
  using time_split [of t] clock_ns_range [of t] by (auto simp: day_start_def algebra_simps)

lemma time_Date_start: "time_Date y m d 0 = day_start (day_of_date y m d)"
  by (simp add: time_Date_def day_start_def)

text \<open>Adding days is adding multiples of 24 hours; adding months to the first of a month is exact.\<close>

lemma time_AddDate_days: "time_AddDate t 0 0 k = t + k * day_ns"
proof -
  obtain y m d where date: "date_of (day_number t) = (y, m, d)" by (cases "date_of (day_number t)")
  have "day_of_date y m (d + k) = day_number t + k"
    using day_of_date_of(1) [OF date] by (simp add: day_of_date_month)
  then show ?thesis
    using time_split [of t] by (simp add: time_AddDate_def date time_Date_def day_start_def algebra_simps)
qed

lemma time_AddDate_months: "time_AddDate (day_start (month_start i)) 0 k 0 = day_start (month_start (i + k))"
proof -
  have "12 * (i div 12) + (i mod 12 + k) = i + k" by simp
  then show ?thesis
    by (simp add: time_AddDate_def date_of_month_start time_Date_start day_of_date_month add.assoc)
qed

end
