(* ===== verification/Proto_Types.thy ===== *)
theory Proto_Types
  imports Leibrix_Prelude Calendar "HOL-Library.Finite_Map"
begin

text \<open>
  The messages of \<open>proto/common.proto\<close> and \<open>proto/management_service.proto\<close> as the generated Go
  structs present them: a message field is a pointer, so an \<^typ>\<open>'a option\<close> with \<^term>\<open>None\<close> for
  nil; an \<open>optional\<close> scalar is a pointer too; a \<open>repeated\<close> field is a list; a \<open>map<string,string>\<close>
  is a finite map; \<open>int32\<close> and \<open>int64\<close> are machine words read as signed, except for the two fields
  of a \<open>Timestamp\<close>, which are unbounded like the instants of the calendar.  Enumerations of proto3
  are open, so each has a constructor for the numbers the schema does not name.

  The conversion between \<open>google.protobuf.Timestamp\<close> and \<open>time.Time\<close> is code of the protobuf
  library.  It is the parameter \<open>timestamppb\<close> of the definitions that use it, and the locale
  \<open>timestamp_codec\<close> states what they rely on: \<open>AsTime\<close> undoes \<open>New\<close>.
\<close>

subsection \<open>Timestamps\<close>

record Timestamp =
  ts_Seconds :: int
  ts_Nanos :: int

record timestamppb =
  AsTime :: "Timestamp option \<Rightarrow> time"
  New :: "time \<Rightarrow> Timestamp"

locale timestamp_codec =
  fixes T :: timestamppb
  assumes AsTime_New: "AsTime T (Some (New T t)) = t"

text \<open>The documented representation: seconds since the Unix epoch and nanoseconds into the second.\<close>

definition unix_codec :: timestamppb where
  "unix_codec =
     \<lparr>AsTime = (\<lambda>ts. case ts of None \<Rightarrow> 0 | Some t \<Rightarrow> ts_Seconds t * 1000000000 + ts_Nanos t),
      New = (\<lambda>t. \<lparr>ts_Seconds = t div 1000000000, ts_Nanos = t mod 1000000000\<rparr>)\<rparr>"

interpretation unix: timestamp_codec unix_codec
  by unfold_locales (simp add: unix_codec_def)

record TimeRange =
  tr_StartInclusive :: "Timestamp option"
  tr_EndExclusive :: "Timestamp option"

record TimeRangeFilter =
  trf_StartInclusive :: "Timestamp option"
  trf_EndExclusive :: "Timestamp option"

subsection \<open>Data sources\<close>

record IcebergCatalog =
  ic_Uri :: string

record ConnectionPoolOptions =
  cpo_MaxConnections :: "32 word option"
  cpo_MinConnections :: "32 word option"
  cpo_AcquireTimeoutMs :: "64 word option"
  cpo_ConnectTimeoutMs :: "64 word option"
  cpo_IdleTimeoutMs :: "64 word option"
  cpo_MaxLifetimeMs :: "64 word option"
  cpo_BatchSize :: "32 word option"

record StarRocksCatalog =
  sr_CatalogName :: string
  sr_Host :: string
  sr_Port :: "32 word"
  sr_Database :: string
  sr_Username :: string
  sr_Password :: string
  sr_MaxConcurrency :: "32 word"
  sr_PoolOptions :: "ConnectionPoolOptions option"

record JdbcCatalog =
  jdbc_Uri :: string
  jdbc_Driver :: string
  jdbc_PoolOptions :: "ConnectionPoolOptions option"

datatype Catalog = Catalog_Iceberg IcebergCatalog | Catalog_Starrocks StarRocksCatalog
  | Catalog_Jdbc JdbcCatalog | Catalog_unset

datatype PartitionColumn_Type =
  COLUMN_UNKNOWN | COLUMN_TIMESTAMP | COLUMN_DATE | COLUMN_STRING | COLUMN_INT64
  | COLUMN_TYPE_other "32 word"

datatype PartitionColumn_Granularity =
  GRANULARITY_UNSPECIFIED | GRANULARITY_HOUR | GRANULARITY_DAY | GRANULARITY_WEEK
  | GRANULARITY_MONTH | GRANULARITY_other "32 word"

record PartitionColumn =
  pc_Name :: string
  pc_Type :: PartitionColumn_Type
  pc_SourceGranularity :: "PartitionColumn_Granularity option"

record TimePartition =
  tp_Column :: "PartitionColumn option"
  tp_Filter :: "TimeRangeFilter option"

record PartitionValues =
  pv_Values :: "string list"

record DimensionPartition =
  dp_Column :: "PartitionColumn option"
  dp_Values :: "PartitionValues option"

record Partition =
  p_TimePartition :: "TimePartition option"
  p_DimensionPartitions :: "DimensionPartition list"

record DataSource =
  ds_Catalog :: "Catalog option"
  ds_Database :: string
  ds_Table :: string
  ds_Partition :: "Partition option"
  ds_Version :: "string option"

subsection \<open>Epochs\<close>

datatype TimeUnit = UNIT_HOUR | UNIT_DAY | UNIT_WEEK | UNIT_MONTH | UNIT_other "32 word"

record EpochGranularity =
  eg_Value :: "32 word"
  eg_Unit :: TimeUnit

type_synonym dimension_values = "(string, string) fmap"

record EpochInfo =
  ei_EpochId :: string
  ei_TimeRange :: "TimeRange option"
  ei_DimensionValues :: dimension_values

record EpochInfoList =
  eil_Epochs :: "EpochInfo list"

subsection \<open>Requests and responses of the management service\<close>

record AdmitDatasetRequest =
  ar_TenantId :: string
  ar_DatasetId :: string
  ar_Source :: "DataSource option"
  ar_EpochGranularity :: "EpochGranularity option"

datatype AdmitDatasetResponse_Status = ADMIT_UNKNOWN | ADMIT_ACCEPTED | ADMIT_REJECTED

record AdmitDatasetResponse =
  arr_Status :: AdmitDatasetResponse_Status
  arr_Epochs :: "EpochInfoList option"
  arr_Message :: string

record TenantQuota =
  tq_TenantId :: string
  tq_MaxDatasets :: "32 word"
  tq_MaxEpochs :: "32 word"
  tq_MaxStorageMb :: "64 word"

datatype ResponseStatus = STATUS_UNKNOWN | STATUS_SUCCESS | STATUS_ERROR

record CommonResponse =
  cr_Status :: ResponseStatus
  cr_Message :: string

end
