(* ===== verification/SHA256.thy ===== *)
theory SHA256
  imports Leibrix_Prelude
begin

text \<open>
  The hash of Go's package \<open>crypto/sha256\<close> (FIPS 180-4) and the lower-case rendering of package
  \<open>encoding/hex\<close>, which the epoch generator uses for the suffix of an epoch identifier.  The
  input of \<open>sha256\<close> is the concatenation of everything written to the hasher.
\<close>

unbundle bit_operations_syntax

type_synonym w32 = "32 word"

text \<open>
  The constants of the standard: the first 32 bits of the fractional parts of the cube roots of the
  first 64 primes (\<open>sha256_K\<close>) and of the square roots of the first eight (\<open>sha256_init\<close>).  The
  integer root is found bit by bit; the conversion to 32 bits drops the integral part.
\<close>

definition int_root :: "nat \<Rightarrow> int \<Rightarrow> int" where
  "int_root k n = fold (\<lambda>b r. if (r + 2 ^ b) ^ k \<le> n then r + 2 ^ b else r) (rev [0..<37]) 0"

definition root_fraction :: "nat \<Rightarrow> int \<Rightarrow> w32" where
  "root_fraction k p = word_of_int (int_root k (p * 2 ^ (32 * k)))"

definition sha256_primes :: "int list" where
  "sha256_primes =
     [2, 3, 5, 7, 11, 13, 17, 19, 23, 29, 31, 37, 41, 43, 47, 53,
      59, 61, 67, 71, 73, 79, 83, 89, 97, 101, 103, 107, 109, 113, 127, 131,
      137, 139, 149, 151, 157, 163, 167, 173, 179, 181, 191, 193, 197, 199, 211, 223,
      227, 229, 233, 239, 241, 251, 257, 263, 269, 271, 277, 281, 283, 293, 307, 311]"

definition sha256_K :: "w32 list" where
  "sha256_K = map (root_fraction 3) sha256_primes"

definition sha256_init :: "w32 list" where
  "sha256_init = map (root_fraction 2) (take 8 sha256_primes)"

definition rotr :: "nat \<Rightarrow> w32 \<Rightarrow> w32" where
  "rotr n x = word_rotr n x"

definition big_sigma0 :: "w32 \<Rightarrow> w32" where
  "big_sigma0 x = rotr 2 x XOR rotr 13 x XOR rotr 22 x"

definition big_sigma1 :: "w32 \<Rightarrow> w32" where
  "big_sigma1 x = rotr 6 x XOR rotr 11 x XOR rotr 25 x"

definition small_sigma0 :: "w32 \<Rightarrow> w32" where
  "small_sigma0 x = rotr 7 x XOR rotr 18 x XOR drop_bit 3 x"

definition small_sigma1 :: "w32 \<Rightarrow> w32" where
  "small_sigma1 x = rotr 17 x XOR rotr 19 x XOR drop_bit 10 x"

text \<open>Padding: a one bit, zeros up to 56 bytes modulo 64, and the bit length in eight bytes.\<close>

definition be_bytes :: "nat \<Rightarrow> int \<Rightarrow> int list" where
  "be_bytes k n = map (\<lambda>i. n div 256 ^ i mod 256) (rev [0..<k])"

definition sha256_pad :: "int list \<Rightarrow> int list" where
  "sha256_pad bs =
     bs @ [128] @ replicate ((119 - length bs mod 64) mod 64) 0 @ be_bytes 8 (8 * int (length bs))"

fun be_words :: "int list \<Rightarrow> w32 list" where
  "be_words (a # b # c # d # bs) =
     word_of_int (a * 2 ^ 24 + b * 2 ^ 16 + c * 2 ^ 8 + d) # be_words bs"
| "be_words _ = []"

text \<open>
  The message schedule keeps the last sixteen words, newest first, and produces the words of a
  block one after the other.
\<close>

fun sha256_schedule :: "nat \<Rightarrow> w32 list \<Rightarrow> w32 list" where
  "sha256_schedule 0 window = []"
| "sha256_schedule (Suc n) window =
     (let w = small_sigma1 (window ! 1) + window ! 6 + small_sigma0 (window ! 14) + window ! 15
      in w # sha256_schedule n (w # butlast window))"

definition sha256_words :: "w32 list \<Rightarrow> w32 list" where
  "sha256_words blk = blk @ sha256_schedule 48 (rev blk)"

fun sha256_round :: "w32 list \<Rightarrow> w32 \<times> w32 \<Rightarrow> w32 list" where
  "sha256_round [a, b, c, d, e, f, g, h] (k, w) =
     (let t1 = h + big_sigma1 e + ((e AND f) XOR (NOT e AND g)) + k + w;
          t2 = big_sigma0 a + ((a AND b) XOR (a AND c) XOR (b AND c))
      in [t1 + t2, a, b, c, d + t1, e, f, g])"
| "sha256_round s _ = s"

definition sha256_block :: "w32 list \<Rightarrow> w32 list \<Rightarrow> w32 list" where
  "sha256_block st blk =
     map2 (+) st (fold (\<lambda>kw s. sha256_round s kw) (zip sha256_K (sha256_words blk)) st)"

fun sha256_blocks :: "nat \<Rightarrow> w32 list \<Rightarrow> w32 list \<Rightarrow> w32 list" where
  "sha256_blocks 0 st ws = st"
| "sha256_blocks (Suc n) st ws = sha256_blocks n (sha256_block st (take 16 ws)) (drop 16 ws)"

text \<open>The digest as bytes; bytes of the input are the characters of the Go string.\<close>

definition sha256 :: "string \<Rightarrow> int list" where
  "sha256 s =
     (let ws = be_words (sha256_pad (map of_char s))
      in concat (map (\<lambda>w. be_bytes 4 (uint w)) (sha256_blocks (length ws div 16) sha256_init ws)))"

definition hex_digit :: "int \<Rightarrow> char" where
  "hex_digit n = (if n < 10 then char_of (48 + n) else char_of (87 + n))"

definition hex_EncodeToString :: "int list \<Rightarrow> string" where
  "hex_EncodeToString bs = concat (map (\<lambda>b. [hex_digit (b div 16), hex_digit (b mod 16)]) bs)"

end
