(* ===== verification/Time_Range.thy ===== *)
theory Time_Range
  imports Calendar "HOL-Library.Word"
begin

text \<open>
  The instants of \<open>time.Time\<close> and what package \<open>time\<close> of Go 1.24 does at their lower end.  An instant
  is kept as a signed 64-bit number of seconds since the year 1, and its calendar is computed on an
  unsigned 64-bit number of seconds since absolute zero, 1 March of the year -292277022400.  From
  there on it is the calendar of theory \<open>Calendar\<close>; further back the computations wrap around, and a
  loop that goes back in time gets there.  So a step back is defined by the arithmetic of the package
  on 64-bit words, and \<open>Add\<close> stops at the earliest instant.

  A step forward is the exact calendar's.  The lemmas at the end show that this is what the words
  compute for the instants of valid \<open>Timestamp\<close>s: the upper end of \<open>time.Time\<close> is not reached.
\<close>

subsection \<open>Definitions\<close>

abbreviation second_ns :: int where "second_ns \<equiv> 1000000000"

text \<open>The seconds from the year 1 to the Unix epoch, and the day of absolute zero.\<close>

abbreviation unixToInternal :: int where "unixToInternal \<equiv> 62135596800"
abbreviation absoluteYears :: int where "absoluteYears \<equiv> 292277022400"
abbreviation absolute_day :: int where "absolute_day \<equiv> - 106751990354238"

text \<open>The instant of a number of seconds since the year 1, and that number.\<close>

definition at_internal :: "int \<Rightarrow> int \<Rightarrow> time" where
  "at_internal sec nsec = (sec - unixToInternal) * second_ns + nsec"

definition internal :: "time \<Rightarrow> int" where
  "internal t = t div second_ns + unixToInternal"

definition time_min :: time where
  "time_min = at_internal (- (2 ^ 63)) 0"

definition time_end :: time where
  "time_end = at_internal (2 ^ 63) 0"

text \<open>The unsigned seconds since absolute zero, and the date and the clock that are read off them.\<close>

definition abs_seconds :: "time \<Rightarrow> int" where
  "abs_seconds t = take_bit 64 (internal t - absolute_day * 86400)"

definition abs_date :: "time \<Rightarrow> int \<times> int \<times> int" where
  "abs_date t = date_of (abs_seconds t div 86400 + absolute_day)"

definition dateToAbsDays :: "int \<Rightarrow> int \<Rightarrow> int \<Rightarrow> int" where
  "dateToAbsDays year month day =
     (let janFeb = (if month < 3 then 1 else 0);
          amonth = month + 12 * janFeb;
          y = take_bit 64 (year - janFeb + absoluteYears);
          ayday = (979 * amonth - 2919) div 32;
          century = y div 100;
          cyear = y mod 100;
          cday = 1461 * cyear div 4;
          centurydays = take_bit 64 (146097 * century) div 4
      in take_bit 64 (centurydays + cday + ayday + day - 1))"

definition abs_Date :: "int \<Rightarrow> int \<Rightarrow> int \<Rightarrow> int \<Rightarrow> int \<Rightarrow> time" where
  "abs_Date year month day sec nsec =
     at_internal (signed_take_bit 63
       (dateToAbsDays (year + (month - 1) div 12) ((month - 1) mod 12 + 1) day * 86400 + sec + absolute_day * 86400)) nsec"

definition abs_AddDate :: "time \<Rightarrow> int \<Rightarrow> int \<Rightarrow> int \<Rightarrow> time" where
  "abs_AddDate t years months days =
     (case abs_date t of (y, m, d) \<Rightarrow>
        abs_Date (y + years) (m + months) (d + days) (abs_seconds t mod 86400) (t mod second_ns))"

text \<open>The instants that \<open>time.Time\<close> holds.\<close>

definition go_time :: "time \<Rightarrow> bool" where
  "go_time t \<longleftrightarrow> time_min \<le> t \<and> t < time_end"

text \<open>\<open>Time.AddDate\<close>: the exact calendar forward, the arithmetic on words backward.\<close>

definition time_AddDate64 :: "time \<Rightarrow> int \<Rightarrow> int \<Rightarrow> int \<Rightarrow> time" where
  "time_AddDate64 t years months days =
     (let t' = time_AddDate t years months days
      in if go_time t \<and> t' < t then abs_AddDate t years months days else t')"

text \<open>\<open>Time.Add\<close>, which saturates.\<close>

definition time_Add :: "time \<Rightarrow> int \<Rightarrow> time" where
  "time_Add t d =
     (if go_time t \<and> t + d < time_min then at_internal (- (2 ^ 63 - 1)) ((t + d) mod second_ns) else t + d)"

text \<open>\<open>Time.UnixMilli\<close>, a product and a sum of 64-bit integers on the instants of \<open>time.Time\<close>.\<close>

definition time_UnixMilli :: "time \<Rightarrow> int" where
  "time_UnixMilli t =
     (if go_time t
      then signed_take_bit 63 (t div second_ns * 1000 + t mod second_ns div 1000000)
      else t div 1000000)"

subsection \<open>The calendar since absolute zero\<close>

lemma century_days:
  fixes y :: int
  shows "146097 * (y div 100) div 4 + 1461 * (y mod 100) div 4 = 365 * y + y div 4 - y div 100 + y div 400"
proof -
  define c where "c = y div 100"
  define r where "r = y mod 100"
  have y: "y = 100 * c + r" by (simp add: c_def r_def)
  have quarter: "(4 * b + x) div 4 = b + x div 4" for b x :: int by simp
  have "146097 * c div 4 = 36524 * c + c div 4" using quarter [of "36524 * c" c] by simp
  moreover have "1461 * r div 4 = 365 * r + r div 4" using quarter [of "365 * r" r] by simp
  moreover have "y div 4 = 25 * c + r div 4" using quarter [of "25 * c" r] by (simp add: y)
  moreover have "y div 400 = c div 4" using zdiv_zmult2_eq [of 4 y 100] by (simp add: c_def)
  ultimately have "146097 * c div 4 + 1461 * r div 4 = 365 * y + y div 4 - c + y div 400" using y by linarith
  then show ?thesis by (simp only: c_def r_def)
qed

lemma year_start_shift: "year_start (y + 1 + 400 * k) = year_start (y + 1) + 146097 * k"
proof -
  have "(y + 400 * k) div 4 = y div 4 + 100 * k" "(y + 400 * k) div 100 = y div 100 + 4 * k"
    "(y + 400 * k) div 400 = y div 400 + k"
    using div_mult_self2 [of 4 y "100 * k"] div_mult_self2 [of 100 y "4 * k"] div_mult_self2 [of 400 y k] by simp_all
  then show ?thesis by (simp add: year_start_def algebra_simps)
qed

text \<open>Years that begin in March: the leap day is the last day of such a year.\<close>

lemma march_year:
  assumes "1 \<le> m" "m \<le> 12"
  defines "j \<equiv> (if m < 3 then 1 else 0)"
  shows "year_start y + days_before (is_leap y) m = year_start (y - j + 1) - 306 + (979 * (m + 12 * j) - 2919) div 32"
proof -
  have leap: "year_start (y + 1) = year_start y + 365 + of_bool (is_leap y)" by (simp add: year_start_Suc)
  from month_range_cases [OF assms(1,2)] show ?thesis
    by (elim disjE) (simp_all add: j_def days_before_values leap)
qed

lemma dateToAbsDays_exact:
  assumes "1 \<le> m" "m \<le> 12" and "2 < 12 * (y + absoluteYears) + m" and "y < 1000000000000"
  shows "dateToAbsDays y m d = take_bit 64 (day_of_date y m d - absolute_day)"
proof -
  define j :: int where "j = (if m < 3 then 1 else 0)"
  define Y where "Y = y - j + absoluteYears"
  have Y: "0 \<le> Y" "Y < 2000000000000" using assms by (auto simp: Y_def j_def)
  then have "take_bit 64 Y = Y" by (simp add: take_bit_int_eq_self_iff)
  moreover have "take_bit 64 (146097 * (Y div 100)) = 146097 * (Y div 100)"
  proof -
    have "0 \<le> Y div 100" "Y div 100 \<le> 20000000000"
      using Y zdiv_mono1 [of Y 2000000000000 100] by (simp_all add: pos_imp_zdiv_nonneg_iff)
    then show ?thesis by (simp add: take_bit_int_eq_self_iff)
  qed
  ultimately have "dateToAbsDays y m d =
      take_bit 64 (146097 * (Y div 100) div 4 + 1461 * (Y mod 100) div 4 + (979 * (m + 12 * j) - 2919) div 32 + d - 1)"
    by (simp add: dateToAbsDays_def Let_def j_def [symmetric] Y_def [symmetric])
  also have "146097 * (Y div 100) div 4 + 1461 * (Y mod 100) div 4 = year_start (y - j + 1) + 146097 * 730692556"
  proof -
    have "year_start (Y + 1) = year_start (y - j + 1) + 146097 * 730692556"
      using year_start_shift [of "y - j" 730692556] by (simp add: Y_def add.commute)
    then show ?thesis using century_days [of Y] by (simp add: year_start_def)
  qed
  also have "year_start (y - j + 1) + 146097 * 730692556 + (979 * (m + 12 * j) - 2919) div 32 + d - 1
      = day_of_date y m d - absolute_day"
    using march_year [OF assms(1,2), of y] month_start_in_year [OF assms(1,2), of y]
    by (simp add: day_of_date_month j_def)
  finally show ?thesis .
qed

text \<open>Every instant of \<open>time.Time\<close> has a date that the conversion back can handle.\<close>

lemma absolute_day_month: "absolute_day = month_start (2 - 12 * absoluteYears)"
  by (simp add: month_start_def year_start_def days_before_def is_leap_def)

lemma abs_seconds_range: "0 \<le> abs_seconds t" "abs_seconds t < 18446744073709551616"
  using take_bit_int_less_exp [of 64 "internal t - absolute_day * 86400"] by (simp_all add: abs_seconds_def)

lemma abs_date_facts:
  assumes "abs_date t = (y, m, d)"
  shows "1 \<le> m" "m \<le> 12" "2 < 12 * (y + absoluteYears) + m" "y < 900000000000"
    "day_of_date y m d = abs_seconds t div 86400 + absolute_day"
proof -
  define n where "n = abs_seconds t div 86400 + absolute_day"
  have date: "date_of n = (y, m, d)" using assms by (simp add: abs_date_def n_def)
  note facts = day_of_date_of [OF date]
  then show "1 \<le> m" "m \<le> 12" "day_of_date y m d = abs_seconds t div 86400 + absolute_day" by (simp_all add: n_def)
  have n: "absolute_day \<le> n" "n < 200000000000000"
    using abs_seconds_range [of t] zdiv_mono1 [of "abs_seconds t" 18446744073709551616 86400]
    by (simp_all add: n_def pos_imp_zdiv_nonneg_iff)
  have "month_start (2 - 12 * absoluteYears) < month_start (12 * y + m)"
    using month_start_of_date(2) [OF date] n(1) absolute_day_month by linarith
  then have "2 - 12 * absoluteYears < 12 * y + m" by (metis linorder_neqE_linordered_idom month_start_less order_less_asym)
  then show "2 < 12 * (y + absoluteYears) + m" by simp
  have "year_start y \<le> n" using year_of_bounds [of n] date by (simp add: date_of_def Let_def)
  moreover have "year_start 900000000000 = 328718249999634" by (simp add: year_start_def)
  ultimately show "y < 900000000000"
    using year_start_less [of 900000000000 y] n(2) by (cases y "900000000000 :: int" rule: linorder_cases) auto
qed

lemma signed_wrap_cong: "take_bit 64 x = take_bit 64 y \<Longrightarrow> signed_take_bit 63 x = signed_take_bit 63 (y :: int)"
  using signed_take_bit_eq_iff_take_bit_eq [of 63 x y] by simp

lemma take_bit_linear: "take_bit 64 (take_bit 64 a * c + b) = take_bit 64 (a * c + b :: int)"
  unfolding take_bit_eq_mod by (metis mod_add_left_eq mod_mult_left_eq)

text \<open>Adding days adds seconds, modulo the range of the words.\<close>

lemma abs_AddDate_days:
  "abs_AddDate t 0 0 k = at_internal (signed_take_bit 63 (internal t + k * 86400)) (t mod second_ns)"
proof -
  obtain y m d where date: "abs_date t = (y, m, d)" by (cases "abs_date t")
  note facts = abs_date_facts [OF date]
  have norm: "(m - 1) div 12 = 0" "(m - 1) mod 12 + 1 = m" using facts(1,2) by (simp_all add: div_pos_pos_trivial mod_pos_pos_trivial)
  define a where "a = abs_seconds t div 86400"
  define c where "c = abs_seconds t mod 86400"
  have a: "a * 86400 + c = abs_seconds t" by (simp add: a_def c_def)
  have "day_of_date y m (d + k) - absolute_day = a + k"
    using facts(5) by (simp add: day_of_date_month a_def)
  then have days: "dateToAbsDays y m (d + k) = take_bit 64 (a + k)"
    using dateToAbsDays_exact [OF facts(1-3), of "d + k"] facts(4) by simp
  have "take_bit 64 (take_bit 64 (a + k) * 86400 + (c + absolute_day * 86400)) =
      take_bit 64 (take_bit 64 (internal t - absolute_day * 86400) * 1 + (k * 86400 + absolute_day * 86400))"
    unfolding take_bit_linear [of "a + k"] abs_seconds_def [symmetric] a [symmetric] by (simp add: algebra_simps)
  also have "\<dots> = take_bit 64 (internal t + k * 86400)" unfolding take_bit_linear by (simp add: algebra_simps)
  finally have "signed_take_bit 63 (take_bit 64 (a + k) * 86400 + c + absolute_day * 86400) =
      signed_take_bit 63 (internal t + k * 86400)"
    by (intro signed_wrap_cong) (simp only: add.assoc)
  then show ?thesis by (simp add: abs_AddDate_def date abs_Date_def norm days flip: c_def)
qed

subsection \<open>Steps back\<close>

lemma at_internal_split: "at_internal (internal t) (t mod second_ns) = t"
  by (simp add: at_internal_def internal_def)

lemma internal_add: "internal (t + k * second_ns) = internal t + k"
  by (simp add: internal_def)

lemma seconds_le: "c * second_ns \<le> t \<longleftrightarrow> c \<le> t div second_ns"
proof -
  define q where "q = t div second_ns"
  define m where "m = t mod second_ns"
  have "t = q * second_ns + m" "0 \<le> m" "m < second_ns" by (auto simp: q_def m_def)
  then show ?thesis unfolding q_def [symmetric] by (intro iffI) linarith+
qed

lemma time_min_le: "time_min \<le> t \<longleftrightarrow> - (2 ^ 63) \<le> internal t"
  using seconds_le [of "- (2 ^ 63) - unixToInternal" t] by (auto simp: time_min_def at_internal_def internal_def)

lemma less_time_end: "t < time_end \<longleftrightarrow> internal t < 2 ^ 63"
  using seconds_le [of "2 ^ 63 - unixToInternal" t] by (auto simp: time_end_def at_internal_def internal_def)

lemma go_time_internal: "go_time t \<longleftrightarrow> - (2 ^ 63) \<le> internal t \<and> internal t < 2 ^ 63"
  by (simp only: go_time_def time_min_le less_time_end)

text \<open>Going back in days is exact until the words wrap around; then it leads to the far future.\<close>

lemma signed_wrap_below:
  fixes x :: int
  assumes "- (2 ^ 64) \<le> x" and "x < - (2 ^ 63)"
  shows "signed_take_bit 63 x = x + 2 ^ 64"
proof -
  have "signed_take_bit 63 x = signed_take_bit 63 (x + 2 ^ 64)"
    by (rule signed_wrap_cong) (simp add: take_bit_eq_mod)
  also have "\<dots> = x + 2 ^ 64" by (rule signed_take_bit_int_eq_self) (use assms in simp_all)
  finally show ?thesis .
qed

lemma time_AddDate64_back:
  assumes "go_time t" and "- 100000000000 \<le> k" and "k < 0"
  shows "time_AddDate64 t 0 0 k =
    (if time_min \<le> t + k * day_ns then t + k * day_ns else t + k * day_ns + 2 ^ 64 * second_ns)"
proof -
  have earlier: "t + k * day_ns < t" using assms(3) by simp
  have shift: "internal (t + k * day_ns) = internal t + k * 86400" "(t + k * day_ns) mod second_ns = t mod second_ns"
    using internal_add [of t "k * 86400"] mod_mult_self1 [of t "k * 86400" second_ns] by (simp_all add: algebra_simps)
  have range: "- (2 ^ 63) \<le> internal t" "internal t < 2 ^ 63" using assms(1) by (simp_all only: go_time_internal)
  have step: "time_AddDate64 t 0 0 k = at_internal (signed_take_bit 63 (internal t + k * 86400)) (t mod second_ns)"
    using earlier assms(1) by (simp add: time_AddDate64_def time_AddDate_days abs_AddDate_days)
  show ?thesis
  proof (cases "time_min \<le> t + k * day_ns")
    case True
    then have "- (2 ^ 63) \<le> internal t + k * 86400" using shift(1) time_min_le by metis
    then have "signed_take_bit 63 (internal t + k * 86400) = internal t + k * 86400"
      by (intro signed_take_bit_int_eq_self) (use range assms(3) in simp_all)
    then show ?thesis using True step shift at_internal_split [of "t + k * day_ns"] by simp
  next
    case False
    then have "internal t + k * 86400 < - (2 ^ 63)" using shift(1) time_min_le by (metis not_le)
    then have "signed_take_bit 63 (internal t + k * 86400) = internal t + k * 86400 + 2 ^ 64"
      by (intro signed_wrap_below) (use range assms(2) in simp_all)
    then show ?thesis using False step shift at_internal_split [of "t + k * day_ns"]
      by (simp add: at_internal_def algebra_simps)
  qed
qed

text \<open>Going back in hours ends at the earliest instant.\<close>

lemma time_Add_back:
  assumes "go_time t" and "d \<le> 0"
  shows "time_Add t d \<le> t \<or> time_Add t d < time_min + 2 * second_ns"
  using assms pos_mod_bound [of second_ns "t + d"] by (auto simp: time_Add_def time_min_def at_internal_def)

subsection \<open>Milliseconds\<close>

lemma millis_div: "t div second_ns * 1000 + t mod second_ns div 1000000 = t div 1000000"
proof -
  define q where "q = t div second_ns"
  define m where "m = t mod second_ns"
  have t: "t = 1000000 * (q * 1000) + m" by (simp add: q_def m_def)
  have "t div 1000000 = q * 1000 + m div 1000000" unfolding t by simp
  then show ?thesis by (simp only: q_def m_def)
qed

lemma time_UnixMilli_exact: "\<bar>t\<bar> \<le> 9000000000000000000000000 \<Longrightarrow> time_UnixMilli t = t div 1000000"
proof -
  assume t: "\<bar>t\<bar> \<le> 9000000000000000000000000"
  then have "- 9000000000000000000 \<le> t div 1000000" "t div 1000000 \<le> 9000000000000000000"
    using zdiv_mono1 [of "- 9000000000000000000000000" t 1000000] zdiv_mono1 [of t 9000000000000000000000000 1000000] by auto
  then have "signed_take_bit 63 (t div 1000000) = t div 1000000" by (intro signed_take_bit_int_eq_self) simp_all
  then show ?thesis by (simp add: time_UnixMilli_def millis_div)
qed

text \<open>The milliseconds of whole hours differ, also where they wrap around.\<close>

lemma coprime_odd: "coprime (2 ^ 57 :: int) 28125"
  by (subst coprime_power_left_iff) simp

lemma time_UnixMilli_range:
  "go_time t \<Longrightarrow> - (2 ^ 63) \<le> time_UnixMilli t \<and> time_UnixMilli t < 2 ^ 63"
  "t < time_min \<Longrightarrow> time_UnixMilli t < - (2 ^ 63)"
  "time_end \<le> t \<Longrightarrow> 2 ^ 63 \<le> time_UnixMilli t"
proof -
  show "go_time t \<Longrightarrow> - (2 ^ 63) \<le> time_UnixMilli t \<and> time_UnixMilli t < 2 ^ 63"
    by (simp add: time_UnixMilli_def signed_take_bit_int_greater_eq_minus_exp [of 63, simplified]
        signed_take_bit_int_less_exp [of 63, simplified])
  show "time_UnixMilli t < - (2 ^ 63)" if "t < time_min"
    using zdiv_mono1 [of t time_min 1000000] that
    by (simp add: time_UnixMilli_def go_time_def) (simp add: time_min_def at_internal_def)
  show "2 ^ 63 \<le> time_UnixMilli t" if "time_end \<le> t"
    using zdiv_mono1 [of time_end t 1000000] that
    by (simp add: time_UnixMilli_def go_time_def) (simp add: time_end_def at_internal_def)
qed

lemma time_UnixMilli_hours:
  assumes "time_UnixMilli (k * hour_ns) = time_UnixMilli (l * hour_ns)"
  shows "k = l"
proof -
  have millis: "n * hour_ns div 1000000 = n * 3600000" for n :: int by simp
  have outside: "k = l" if "\<not> go_time (k * hour_ns)" "\<not> go_time (l * hour_ns)"
    using assms that by (simp add: time_UnixMilli_def millis)
  have "go_time (k * hour_ns) \<longleftrightarrow> go_time (l * hour_ns)"
    using time_UnixMilli_range [of "k * hour_ns"] time_UnixMilli_range [of "l * hour_ns"] assms
    unfolding go_time_def by (metis not_le not_less)
  moreover have "k = l" if "go_time (k * hour_ns)" "go_time (l * hour_ns)"
  proof -
    have "signed_take_bit 63 (k * 3600000) = signed_take_bit 63 (l * 3600000)"
      using assms that by (simp add: time_UnixMilli_def millis_div millis mult.commute)
    then have "(k * 3600000) mod 2 ^ 64 = (l * 3600000) mod 2 ^ 64"
      using signed_take_bit_eq_iff_take_bit_eq [of 63 "k * 3600000" "l * 3600000"] by (simp add: take_bit_eq_mod)
    then have "2 ^ 64 dvd (k - l) * 3600000" by (simp add: mod_eq_dvd_iff algebra_simps)
    then have "2 ^ 7 * 2 ^ 57 dvd 2 ^ 7 * ((k - l) * 28125)" by (simp add: algebra_simps)
    then have "2 ^ 57 dvd (k - l) * 28125" by (subst (asm) dvd_mult_cancel_left) simp
    then have "2 ^ 57 dvd k - l" using coprime_odd by (simp only: coprime_dvd_mult_left_iff)
    moreover have "\<bar>k - l\<bar> < 2 ^ 57"
      using that by (simp add: go_time_def time_min_def time_end_def at_internal_def abs_less_iff)
    ultimately show ?thesis using dvd_imp_le_int [of "k - l" "2 ^ 57"] by auto
  qed
  ultimately show ?thesis using outside by blast
qed

subsection \<open>Steps forward\<close>

lemma time_Add_forward: "0 \<le> d \<Longrightarrow> time_Add t d = t + d"
  by (simp add: time_Add_def go_time_def)

lemma time_AddDate64_forward:
  "t \<le> time_AddDate t years months days \<Longrightarrow> time_AddDate64 t years months days = time_AddDate t years months days"
  by (simp add: time_AddDate64_def)

text \<open>The instants of valid \<open>Timestamp\<close>s: the years 1 to 9999.\<close>

definition valid_time :: "time \<Rightarrow> bool" where
  "valid_time t \<longleftrightarrow> day_start 0 \<le> t \<and> t < day_start (year_start 10000)"

lemma valid_day: "valid_time t \<Longrightarrow> 0 \<le> day_number t \<and> day_number t < 3652059"
proof -
  assume "valid_time t"
  then have "day_start 0 \<le> t" "t < day_start 3652059" by (simp_all add: valid_time_def year_start_def)
  then have "day_start 0 < day_start (day_number t + 1)" "day_start (day_number t) < day_start 3652059"
    using day_number_bounds [of t] by linarith+
  then show ?thesis by (simp only: day_start_less_iff) simp
qed

lemma internal_day: "internal t div 86400 = day_number t" "internal t mod 86400 = clock_ns t div second_ns"
  and clock_second: "clock_ns t mod second_ns = t mod second_ns"
proof -
  have "t div day_ns = t div second_ns div 86400" using zdiv_zmult2_eq [of 86400 t second_ns] by simp
  then show "internal t div 86400 = day_number t" by (simp add: internal_def day_number_def)
  have clock: "clock_ns t = second_ns * (t div second_ns mod 86400) + t mod second_ns"
    using zmod_zmult2_eq [of 86400 t second_ns] by (simp add: clock_ns_def)
  show "internal t mod 86400 = clock_ns t div second_ns" unfolding clock
    using mod_mult_self1 [of "t div second_ns" 719162 86400] by (simp add: internal_def)
  show "clock_ns t mod second_ns = t mod second_ns" unfolding clock by simp
qed

lemma internal_range: "internal t = day_number t * 86400 + clock_ns t div second_ns"
    "0 \<le> clock_ns t div second_ns" "clock_ns t div second_ns < 86400"
  using div_mult_mod_eq [of "internal t" 86400] internal_day [of t] pos_mod_sign [of 86400 "internal t"]
    pos_mod_bound [of 86400 "internal t"] by simp_all

lemma valid_go_time: "valid_time t \<Longrightarrow> go_time t"
  using valid_day [of t] internal_range [of t] by (simp add: go_time_internal)

text \<open>There the date and the clock of the words are those of the calendar.\<close>

lemma valid_abs:
  assumes "valid_time t"
  shows "abs_date t = date_of (day_number t)" "abs_seconds t mod 86400 = clock_ns t div second_ns"
proof -
  have "abs_seconds t = (day_number t - absolute_day) * 86400 + clock_ns t div second_ns"
    using valid_day [OF assms] internal_range [of t]
    by (simp add: abs_seconds_def take_bit_int_eq_self_iff algebra_simps)
  then have "abs_seconds t div 86400 = day_number t - absolute_day" "abs_seconds t mod 86400 = clock_ns t div second_ns"
    using internal_range(2,3) [of t]
    by (auto intro!: int_div_pos_eq [where r = "clock_ns t div second_ns"] int_mod_pos_eq [where q = "day_number t - absolute_day"])
  then show "abs_date t = date_of (day_number t)" "abs_seconds t mod 86400 = clock_ns t div second_ns"
    by (simp_all add: abs_date_def)
qed

lemma month_start_growth: "month_start (i + int k) \<le> month_start i + 31 * int k"
proof (induction k)
  case (Suc k)
  have "month_start (j + 1) \<le> month_start j + 31" for j
  proof -
    obtain y m where j: "j = 12 * y + (m - 1)" "1 \<le> m" "m \<le> 12"
      by (rule that [of "j div 12" "j mod 12 + 1"]) auto
    have "month_start (j + 1) = year_start y + days_before (is_leap y) (m + 1)"
    proof (cases "m = 12")
      case True
      then have "month_start (j + 1) = year_start (y + 1)"
        using month_start_in_year [of 1 "y + 1"] j(1) by (simp add: days_before_values algebra_simps)
      then show ?thesis using True year_days [of y] by simp
    next
      case False
      then show ?thesis using month_start_in_year [of "m + 1" y] j by (simp add: algebra_simps)
    qed
    then show ?thesis
      using days_before_step(2) [OF j(2,3), of "is_leap y"] month_start_in_year [OF j(2,3), of y] j(1) by simp
  qed
  from this [of "i + int k"] Suc show ?case by (simp add: algebra_simps)
qed simp

text \<open>A step forward from a valid instant is exact on words, and so stays within \<open>time.Time\<close>.\<close>

lemma abs_AddDate_forward_days:
  assumes "valid_time t" and "0 \<le> k" and "k \<le> 15032385536"
  shows "abs_AddDate t 0 0 k = time_AddDate t 0 0 k"
proof -
  have "internal t + k * 86400 < 2 ^ 63" "- (2 ^ 63) \<le> internal t + k * 86400"
    using valid_day [OF assms(1)] internal_range [of t] assms(2,3) by simp_all
  then have "abs_AddDate t 0 0 k = at_internal (internal t + k * 86400) (t mod second_ns)"
    unfolding abs_AddDate_days by (subst signed_take_bit_int_eq_self) simp_all
  also have "\<dots> = t + k * day_ns" using at_internal_split [of t] by (simp add: at_internal_def algebra_simps)
  finally show ?thesis by (simp add: time_AddDate_days)
qed

lemma abs_AddDate_forward_months:
  assumes "valid_time t" and "0 \<le> k" and "k \<le> 2147483648"
  shows "abs_AddDate t 0 k 0 = time_AddDate t 0 k 0"
proof -
  obtain y m d where date: "date_of (day_number t) = (y, m, d)" by (cases "date_of (day_number t)")
  note facts = day_of_date_of [OF date]
  define y' where "y' = y + (m + k - 1) div 12"
  define m' where "m' = (m + k - 1) mod 12 + 1"
  have abs: "abs_date t = (y, m, d)" using valid_abs(1) [OF assms(1)] date by simp
  have same: "12 * y' + (m' - 1) = 12 * y + (m + k - 1)" by (simp add: y'_def m'_def)
  have m': "1 \<le> m'" "m' \<le> 12" by (simp_all add: m'_def)
  have days: "day_of_date y (m + k) d = day_of_date y' m' d" "day_of_date y m d = day_number t"
    using facts(1) by (simp_all only: day_of_date_month same)
  have "2 < 12 * (y' + absoluteYears) + m'" "y' < 1000000000000"
    using abs_date_facts(3,4) [OF abs] same m' facts(2,3) assms(2,3) by simp_all
  then have conv: "dateToAbsDays y' m' d = take_bit 64 (day_of_date y' m' d - absolute_day)"
    using dateToAbsDays_exact [OF m'] by blast
  have grows: "month_start (12 * y + (m - 1)) \<le> month_start (12 * y + (m - 1) + k)"
    using month_start_less [of "12 * y + (m - 1)" "12 * y + (m - 1) + k"] assms(2) by (cases "k = 0") auto
  have "month_start (12 * y + (m - 1) + k) \<le> month_start (12 * y + (m - 1)) + 31 * k"
    using month_start_growth [of "12 * y + (m - 1)" "nat k"] assms(2) by simp
  with grows have "day_number t \<le> day_of_date y (m + k) d" "day_of_date y (m + k) d \<le> day_number t + 31 * k"
    using facts(1) by (simp_all add: day_of_date_month algebra_simps)
  then have bounds: "0 \<le> day_of_date y' m' d" "day_of_date y' m' d \<le> 70000000000"
    using valid_day [OF assms(1)] days(1) assms(3) by linarith+
  then have "dateToAbsDays y' m' d = day_of_date y' m' d - absolute_day"
    unfolding conv by (simp add: take_bit_int_eq_self_iff)
  then have "abs_AddDate t 0 k 0 =
      at_internal (signed_take_bit 63 (day_of_date y' m' d * 86400 + clock_ns t div second_ns)) (t mod second_ns)"
    by (simp add: abs_AddDate_def abs abs_Date_def valid_abs(2) [OF assms(1)] flip: y'_def m'_def)
  also have "signed_take_bit 63 (day_of_date y' m' d * 86400 + clock_ns t div second_ns) =
      day_of_date y' m' d * 86400 + clock_ns t div second_ns"
    by (rule signed_take_bit_int_eq_self) (use bounds internal_range(2,3) [of t] in simp_all)
  also have "at_internal (day_of_date y' m' d * 86400 + clock_ns t div second_ns) (t mod second_ns) = time_AddDate t 0 k 0"
    using div_mult_mod_eq [of "clock_ns t" second_ns]
    by (simp add: at_internal_def time_AddDate_def date time_Date_def days(1) clock_second)
  finally show ?thesis .
qed

end
