(* ===== verification/Epoch_Generator.thy ===== *)
theory Epoch_Generator
  imports Proto_Types SHA256 Time_Range
begin

text \<open>
  \<open>internal/api/grpc/epoch_generator.go\<close>: from an admission request to the list of epochs it
  creates.  Every function of the file is translated; the loop of \<open>sliceTimeRange\<close> is a
  \<open>partial_function\<close> in the option monad, so that a loop that never ends is \<^term>\<open>None\<close>, and a
  run-time panic is the value \<^term>\<open>Panic p\<close>.
\<close>

subsection \<open>Reading the request\<close>

definition extractTimeRange :: "AdmitDatasetRequest \<Rightarrow> TimeRangeFilter outcome" where
  "extractTimeRange request =
     (case ar_Source request of
        None \<Rightarrow> Err ''time partition information is incomplete''
      | Some source \<Rightarrow>
        (case ds_Partition source of
           None \<Rightarrow> Err ''time partition information is incomplete''
         | Some part \<Rightarrow>
           (case p_TimePartition part of
              None \<Rightarrow> Err ''time partition information is incomplete''
            | Some timePartition \<Rightarrow>
              (case tp_Filter timePartition of
                 None \<Rightarrow> Panic nil_deref
               | Some tfilter \<Rightarrow>
                 if trf_StartInclusive tfilter = None \<or> trf_EndExclusive tfilter = None
                 then Err ''start_inclusive and end_exclusive are required''
                 else Ok tfilter))))"

fun convertSourceGranularity :: "PartitionColumn_Granularity \<Rightarrow> EpochGranularity option" where
  "convertSourceGranularity GRANULARITY_HOUR = Some \<lparr>eg_Value = 1, eg_Unit = UNIT_HOUR\<rparr>"
| "convertSourceGranularity GRANULARITY_DAY = Some \<lparr>eg_Value = 1, eg_Unit = UNIT_DAY\<rparr>"
| "convertSourceGranularity GRANULARITY_WEEK = Some \<lparr>eg_Value = 1, eg_Unit = UNIT_WEEK\<rparr>"
| "convertSourceGranularity GRANULARITY_MONTH = Some \<lparr>eg_Value = 1, eg_Unit = UNIT_MONTH\<rparr>"
| "convertSourceGranularity GRANULARITY_UNSPECIFIED = None"
| "convertSourceGranularity (GRANULARITY_other n) = None"

definition determineGranularity :: "AdmitDatasetRequest \<Rightarrow> EpochGranularity option" where
  "determineGranularity request =
     (case ar_EpochGranularity request of
        Some g \<Rightarrow> Some g
      | None \<Rightarrow>
        (case ar_Source request of
           None \<Rightarrow> None
         | Some dataSource \<Rightarrow>
           (case ds_Partition dataSource of
              None \<Rightarrow> None
            | Some part \<Rightarrow>
              (case p_TimePartition part of
                 None \<Rightarrow> None
               | Some timePartition \<Rightarrow>
                 (case tp_Column timePartition of
                    None \<Rightarrow> Some \<lparr>eg_Value = 1, eg_Unit = UNIT_DAY\<rparr>
                  | Some column \<Rightarrow>
                    (case pc_SourceGranularity column of
                       None \<Rightarrow> Some \<lparr>eg_Value = 1, eg_Unit = UNIT_DAY\<rparr>
                     | Some sg \<Rightarrow> convertSourceGranularity sg))))))"

text \<open>The keys of a Go map in sorted order (\<open>sort.Strings\<close> orders strings bytewise).\<close>

definition sorted_keys :: "dimension_values \<Rightarrow> string list" where
  "sorted_keys m = sorted_list_of_fset (fmdom m)"

definition cloneDimensionValues :: "dimension_values \<Rightarrow> dimension_values" where
  "cloneDimensionValues values =
     (if fmdom values = {||} then fmempty
      else fold (\<lambda>key cloned. case fmlookup values key of
                   None \<Rightarrow> cloned | Some value \<Rightarrow> fmupd key value cloned)
             (sorted_keys values) fmempty)"

text \<open>
  One turn of the loop over the dimension partitions: every set built so far is extended with
  every value of the partition, in this order.
\<close>

definition extendDimensionSets :: "dimension_values list \<Rightarrow> DimensionPartition \<Rightarrow> dimension_values list" where
  "extendDimensionSets dimensionValueSets dimPartition =
     (case (dp_Column dimPartition, dp_Values dimPartition) of
        (Some column, Some vs) \<Rightarrow>
          if pv_Values vs = [] then dimensionValueSets
          else concat (map (\<lambda>existing.
                 map (\<lambda>value. fmupd (pc_Name column) value (cloneDimensionValues existing))
                   (pv_Values vs))
                 dimensionValueSets)
      | _ \<Rightarrow> dimensionValueSets)"

definition extractDimensionValueSets :: "AdmitDatasetRequest \<Rightarrow> dimension_values list" where
  "extractDimensionValueSets request =
     (case ar_Source request of
        None \<Rightarrow> [fmempty]
      | Some source \<Rightarrow>
        (case ds_Partition source of
           None \<Rightarrow> [fmempty]
         | Some part \<Rightarrow>
             foldl extendDimensionSets [fmempty] (p_DimensionPartitions part)))"

subsection \<open>Calendar arithmetic\<close>

definition truncateToDay :: "time \<Rightarrow> time" where
  "truncateToDay t = (case date_of (day_number t) of (y, m, d) \<Rightarrow> time_Date y m d 0)"

definition truncateToGranularity :: "time \<Rightarrow> EpochGranularity \<Rightarrow> time" where
  "truncateToGranularity t granularity =
     (case eg_Unit granularity of
        UNIT_HOUR \<Rightarrow> time_Truncate t hour_ns
      | UNIT_DAY \<Rightarrow> truncateToDay t
      | UNIT_WEEK \<Rightarrow>
          (let weekday = (if time_Weekday t = 0 then 7 else time_Weekday t);
               daysToSubtract = weekday - 1;
               weekStart = time_AddDate t 0 0 (- daysToSubtract)
           in truncateToDay weekStart)
      | UNIT_MONTH \<Rightarrow> (case date_of (day_number t) of (y, m, d) \<Rightarrow> time_Date y m 1 0)
      | UNIT_other n \<Rightarrow> truncateToDay t)"

text \<open>\<open>time.Duration(value) * time.Hour\<close>: a product of 64-bit integers, which wraps around.\<close>

definition hours_duration :: "int \<Rightarrow> int" where
  "hours_duration value = sint (word_of_int value * word_of_int hour_ns :: 64 word)"

definition addGranularity :: "time \<Rightarrow> EpochGranularity \<Rightarrow> time outcome" where
  "addGranularity t granularity =
     (let value = sint (eg_Value granularity)
      in case eg_Unit granularity of
           UNIT_HOUR \<Rightarrow> Ok (time_Add t (hours_duration value))
         | UNIT_DAY \<Rightarrow> Ok (time_AddDate64 t 0 0 value)
         | UNIT_WEEK \<Rightarrow> Ok (time_AddDate64 t 0 0 (value * 7))
         | UNIT_MONTH \<Rightarrow> Ok (time_AddDate64 t 0 value 0)
         | UNIT_other n \<Rightarrow> Panic (''unknown granularity unit '' @ string_of_int (sint n)))"

subsection \<open>Epoch identifiers\<close>

text \<open>Everything \<open>generateEpochID\<close> writes to the hasher, in order.\<close>

definition epochHashInput :: "int \<Rightarrow> dimension_values \<Rightarrow> string" where
  "epochHashInput timestampMs dimensionValues =
     string_of_int timestampMs
     @ concat (map (\<lambda>key. key @ ''='' @ (case fmlookup dimensionValues key of None \<Rightarrow> '''' | Some v \<Rightarrow> v))
                 (sorted_keys dimensionValues))"

definition generateEpochID :: "time \<Rightarrow> dimension_values \<Rightarrow> string" where
  "generateEpochID start dimensionValues =
     (let timestampMs = time_UnixMilli start;
          hashBytes = sha256 (epochHashInput timestampMs dimensionValues);
          hashSuffix = hex_EncodeToString (take 3 hashBytes)
      in string_of_int timestampMs @ ''_'' @ hashSuffix)"

subsection \<open>Slicing the time range\<close>

definition newEpoch :: "timestamppb \<Rightarrow> dimension_values \<Rightarrow> time \<Rightarrow> time \<Rightarrow> EpochInfo" where
  "newEpoch T dimensionValues current epochEnd =
     \<lparr>ei_EpochId = generateEpochID current dimensionValues,
      ei_TimeRange = Some \<lparr>tr_StartInclusive = Some (New T current), tr_EndExclusive = Some (New T epochEnd)\<rparr>,
      ei_DimensionValues = cloneDimensionValues dimensionValues\<rparr>"

partial_function (option) sliceLoop ::
  "timestamppb \<Rightarrow> EpochGranularity \<Rightarrow> dimension_values \<Rightarrow> time \<Rightarrow> time \<Rightarrow> EpochInfo list
    \<Rightarrow> EpochInfo list outcome option"
where
  "sliceLoop T granularity dimensionValues end current epochs =
     (if current < end
      then (case addGranularity current granularity of
              Ok epochEnd \<Rightarrow>
                sliceLoop T granularity dimensionValues end epochEnd
                  (epochs @ [newEpoch T dimensionValues current epochEnd])
            | Err e \<Rightarrow> Some (Err e)
            | Panic p \<Rightarrow> Some (Panic p))
      else Some (Ok epochs))"

declare sliceLoop.simps [code]

definition sliceTimeRange ::
  "timestamppb \<Rightarrow> TimeRangeFilter \<Rightarrow> EpochGranularity \<Rightarrow> dimension_values \<Rightarrow> EpochInfo list outcome option"
where
  "sliceTimeRange T timeRange granularity dimensionValues =
     (let start = AsTime T (trf_StartInclusive timeRange);
          end = AsTime T (trf_EndExclusive timeRange)
      in if start > end \<or> start = end then Some (Err ''invalid time range: start must be before end'')
         else (case sliceLoop T granularity dimensionValues end (truncateToGranularity start granularity) [] of
                 None \<Rightarrow> None
               | Some (Ok epochs) \<Rightarrow>
                   if epochs = [] then Some (Err ''no epochs generated from time range'')
                   else Some (Ok epochs)
               | Some (Err e) \<Rightarrow> Some (Err e)
               | Some (Panic p) \<Rightarrow> Some (Panic p)))"

text \<open>The loop of \<open>GenerateEpochs\<close> over the dimension value sets.\<close>

fun generateLoop ::
  "timestamppb \<Rightarrow> TimeRangeFilter \<Rightarrow> EpochGranularity \<Rightarrow> dimension_values list \<Rightarrow> EpochInfo list
    \<Rightarrow> EpochInfo list outcome option"
where
  "generateLoop T timeRange granularity [] epochs = Some (Ok epochs)"
| "generateLoop T timeRange granularity (dimensionValues # sets) epochs =
     (case sliceTimeRange T timeRange granularity dimensionValues of
        None \<Rightarrow> None
      | Some (Ok dimensionEpochs) \<Rightarrow>
          generateLoop T timeRange granularity sets (epochs @ dimensionEpochs)
      | Some (Err e) \<Rightarrow> Some (Err (''failed to slice time range: '' @ e))
      | Some (Panic p) \<Rightarrow> Some (Panic p))"

definition GenerateEpochs :: "timestamppb \<Rightarrow> AdmitDatasetRequest \<Rightarrow> EpochInfo list outcome option" where
  "GenerateEpochs T request =
     (case extractTimeRange request of
        Err e \<Rightarrow> Some (Err (''failed to extract time range: '' @ e))
      | Panic p \<Rightarrow> Some (Panic p)
      | Ok timeRange \<Rightarrow>
        (case determineGranularity request of
           None \<Rightarrow> Some (Err ''failed to determine epoch granularity'')
         | Some granularity \<Rightarrow>
             generateLoop T timeRange granularity (extractDimensionValueSets request) []))"

end
