(* ===== verification/Epoch_Grid.thy ===== *)
theory Epoch_Grid
  imports Epoch_Generator
begin

text \<open>
  The calendar grid behind \<open>sliceTimeRange\<close>.  The locale \<open>granularity_grid\<close> is the contract
  between \<open>truncateToGranularity\<close> / \<open>addGranularity\<close> and the slicing loop: truncation yields a
  boundary not after the instant, and adding the granularity to a boundary yields the next one, at
  least an hour later.  From the contract alone the loop is shown to terminate with consecutive
  epochs that cover the requested range.  The locale \<open>usable_granularity\<close> holds the granularities
  for which the code keeps the contract (a known unit, a positive value and no overflow of the
  hour product), as its \<open>sublocale\<close> declaration proves.
\<close>

subsection \<open>Boundaries\<close>

definition aligned_to :: "TimeUnit \<Rightarrow> time \<Rightarrow> bool" where
  "aligned_to u t =
     (case u of
        UNIT_HOUR \<Rightarrow> t mod hour_ns = 0
      | UNIT_DAY \<Rightarrow> clock_ns t = 0
      | UNIT_WEEK \<Rightarrow> clock_ns t = 0 \<and> time_Weekday t = 1
      | UNIT_MONTH \<Rightarrow> clock_ns t = 0 \<and> snd (snd (date_of (day_number t))) = 1
      | UNIT_other n \<Rightarrow> clock_ns t = 0)"

text \<open>The instant \<open>addGranularity\<close> returns, where it returns one.\<close>

definition nextBoundary :: "EpochGranularity \<Rightarrow> time \<Rightarrow> time" where
  "nextBoundary g t = (case addGranularity t g of Ok t' \<Rightarrow> t' | _ \<Rightarrow> t)"

text \<open>
  A granularity is representable when its unit is one the schema names and its number of hours
  fits a \<open>time.Duration\<close> (a signed 64-bit number of nanoseconds); slicing works on the
  representable granularities with a positive value.
\<close>

definition representable :: "EpochGranularity \<Rightarrow> bool" where
  "representable g \<longleftrightarrow>
     (case eg_Unit g of UNIT_HOUR \<Rightarrow> \<bar>sint (eg_Value g)\<bar> \<le> 2562047
      | UNIT_DAY \<Rightarrow> True | UNIT_WEEK \<Rightarrow> True | UNIT_MONTH \<Rightarrow> True | UNIT_other n \<Rightarrow> False)"

definition usable :: "EpochGranularity \<Rightarrow> bool" where
  "usable g \<longleftrightarrow> 0 < sint (eg_Value g) \<and> representable g"

definition epochStart :: "timestamppb \<Rightarrow> EpochInfo \<Rightarrow> time" where
  "epochStart T e = AsTime T (Option.bind (ei_TimeRange e) tr_StartInclusive)"

definition epochEnd :: "timestamppb \<Rightarrow> EpochInfo \<Rightarrow> time" where
  "epochEnd T e = AsTime T (Option.bind (ei_TimeRange e) tr_EndExclusive)"

context timestamp_codec
begin

lemma epochStart_newEpoch [simp]: "epochStart T (newEpoch T dv s t) = s"
  by (simp add: epochStart_def newEpoch_def AsTime_New)

lemma epochEnd_newEpoch [simp]: "epochEnd T (newEpoch T dv s t) = t"
  by (simp add: epochEnd_def newEpoch_def AsTime_New)

end

subsection \<open>Boundaries in closed form\<close>

text \<open>
  The boundaries of a unit are the values of a strictly increasing function on the integers:
  multiples of an hour, midnights, midnights of Mondays, midnights of firsts of a month.
\<close>

definition boundary :: "TimeUnit \<Rightarrow> int \<Rightarrow> time" where
  "boundary u k =
     (case u of
        UNIT_HOUR \<Rightarrow> k * hour_ns
      | UNIT_DAY \<Rightarrow> day_start k
      | UNIT_WEEK \<Rightarrow> day_start (7 * k)
      | UNIT_MONTH \<Rightarrow> day_start (month_start k)
      | UNIT_other n \<Rightarrow> day_start k)"

lemma boundary_units [simp]:
  "boundary UNIT_HOUR k = k * hour_ns" "boundary UNIT_DAY k = day_start k"
  "boundary UNIT_WEEK k = day_start (7 * k)" "boundary UNIT_MONTH k = day_start (month_start k)"
  "boundary (UNIT_other n) k = day_start k"
  by (simp_all add: boundary_def)

lemma boundary_step: "boundary u k + hour_ns \<le> boundary u (k + 1)"
  using month_start_step [of k] by (cases u) (auto simp: day_start_def)

lemma boundary_less: "k < l \<Longrightarrow> boundary u k < boundary u l"
  using month_start_less by (cases u) auto

lemma boundary_less_iff: "boundary u k < boundary u l \<longleftrightarrow> k < l"
  by (metis boundary_less linorder_neqE order_less_asym)

lemma boundary_le_iff: "boundary u k \<le> boundary u l \<longleftrightarrow> k \<le> l"
  by (metis boundary_less_iff not_less)

lemma aligned_day: "clock_ns t = 0 \<longleftrightarrow> (\<exists>n. t = day_start n)"
  using time_split [of t] by force

lemma aligned_month: "aligned_to UNIT_MONTH t \<longleftrightarrow> (\<exists>i. t = day_start (month_start i))"
proof
  assume al: "aligned_to UNIT_MONTH t"
  obtain y m d where date: "date_of (day_number t) = (y, m, d)" by (cases "date_of (day_number t)")
  with al have "d = 1" and "clock_ns t = 0" by (auto simp: aligned_to_def)
  then have "t = day_start (month_start (12 * y + (m - 1)))"
    using day_of_date_of(1) [OF date] time_split [of t] by (simp add: day_of_date_month)
  then show "\<exists>i. t = day_start (month_start i)" ..
next
  assume "\<exists>i. t = day_start (month_start i)"
  then show "aligned_to UNIT_MONTH t" by (auto simp: aligned_to_def date_of_month_start)
qed

lemma aligned_week: "aligned_to UNIT_WEEK t \<longleftrightarrow> (\<exists>k. t = day_start (7 * k))"
proof
  assume al: "aligned_to UNIT_WEEK t"
  then obtain n where n: "t = day_start n" by (auto simp: aligned_to_def aligned_day)
  with al have "(n + 1) mod 7 = 1" by (simp add: aligned_to_def time_Weekday_def)
  then have "n = 7 * (n div 7)" by presburger
  with n show "\<exists>k. t = day_start (7 * k)" by metis
next
  assume "\<exists>k. t = day_start (7 * k)"
  then obtain k where "t = day_start (7 * k)" ..
  moreover have "(7 * k + 1) mod 7 = 1" by presburger
  ultimately show "aligned_to UNIT_WEEK t" by (simp add: aligned_to_def time_Weekday_def)
qed

lemma aligned_boundary: "aligned_to u t \<longleftrightarrow> (\<exists>k. t = boundary u k)"
proof (cases u)
  case UNIT_HOUR
  have "t mod hour_ns = 0 \<longleftrightarrow> (\<exists>k. t = k * hour_ns)"
    by (auto simp: mod_eq_0_iff_dvd dvd_def mult.commute)
  then show ?thesis by (simp add: UNIT_HOUR aligned_to_def)
qed (auto simp: aligned_month aligned_week, auto simp: aligned_to_def aligned_day)

subsection \<open>Truncation is the last boundary\<close>

lemma truncateToDay_eq: "truncateToDay t = day_start (day_number t)"
  by (cases "date_of (day_number t)")
     (simp add: truncateToDay_def time_Date_start day_of_date_of(1))

lemma truncate_hour: "eg_Unit g = UNIT_HOUR \<Longrightarrow> truncateToGranularity t g = (t div hour_ns) * hour_ns"
proof -
  have "(t + unix_epoch_day * day_ns) mod hour_ns = t mod hour_ns"
    by (rule mod_add_eq [of t hour_ns "unix_epoch_day * day_ns", symmetric, THEN trans]) simp
  then show "eg_Unit g = UNIT_HOUR \<Longrightarrow> ?thesis"
    by (simp add: truncateToGranularity_def time_Truncate_def minus_mod_eq_div_mult)
qed

lemma truncate_week:
  assumes "eg_Unit g = UNIT_WEEK"
  shows "truncateToGranularity t g = day_start (7 * (day_number t div 7))"
proof -
  define n where "n = day_number t"
  have weekday: "(if time_Weekday t = 0 then 7 else time_Weekday t) - 1 = n mod 7"
    unfolding time_Weekday_def n_def [symmetric] by presburger
  have "day_number (time_AddDate t 0 0 (- (n mod 7))) = n - n mod 7"
    by (simp add: time_AddDate_days day_number_def n_def)
  moreover have "truncateToGranularity t g =
      truncateToDay (time_AddDate t 0 0 (- ((if time_Weekday t = 0 then 7 else time_Weekday t) - 1)))"
    by (simp only: truncateToGranularity_def assms TimeUnit.case Let_def)
  ultimately show ?thesis
    by (simp add: weekday truncateToDay_eq minus_mod_eq_mult_div flip: n_def)
qed

lemma day_start_leI: "n \<le> day_number t \<Longrightarrow> day_start n \<le> t"
  using day_number_bounds(1) [of t] by (meson day_start_le_iff order_trans)

lemma less_day_startI: "day_number t < n \<Longrightarrow> t < day_start n"
  using day_number_bounds(2) [of t] by (meson day_start_le_iff order_less_le_trans zless_imp_add1_zle)

lemma truncate_boundary:
  "\<exists>k. truncateToGranularity t g = boundary (eg_Unit g) k
     \<and> boundary (eg_Unit g) k \<le> t \<and> t < boundary (eg_Unit g) (k + 1)"
proof (cases "eg_Unit g")
  case UNIT_HOUR
  have "(t div hour_ns) * hour_ns \<le> t" and "t < (t div hour_ns + 1) * hour_ns"
    using div_mult_mod_eq [of t hour_ns] pos_mod_bound [of hour_ns t] pos_mod_sign [of hour_ns t]
    by (auto simp: algebra_simps)
  then show ?thesis by (intro exI [of _ "t div hour_ns"]) (simp add: UNIT_HOUR truncate_hour)
next
  case UNIT_WEEK
  have "7 * (day_number t div 7) \<le> day_number t" "day_number t < 7 * (day_number t div 7 + 1)"
    by presburger+
  then show ?thesis
    by (intro exI [of _ "day_number t div 7"])
       (simp add: UNIT_WEEK truncate_week day_start_leI less_day_startI)
next
  case UNIT_MONTH
  obtain y m d where date: "date_of (day_number t) = (y, m, d)" by (cases "date_of (day_number t)")
  then show ?thesis
    using month_start_of_date [OF date]
    by (intro exI [of _ "12 * y + (m - 1)"])
       (simp add: UNIT_MONTH truncateToGranularity_def time_Date_start day_of_date_month
         day_start_leI less_day_startI algebra_simps)
qed (auto simp: truncateToGranularity_def truncateToDay_eq day_number_bounds
       intro!: exI [of _ "day_number t"])

subsection \<open>The contract\<close>

locale granularity_grid =
  fixes g :: EpochGranularity
  assumes trunc_le: "truncateToGranularity t g \<le> t"
    and trunc_aligned: "aligned_to (eg_Unit g) (truncateToGranularity t g)"
    and trunc_next: "t < nextBoundary g (truncateToGranularity t g)"
    and add_Ok: "aligned_to (eg_Unit g) t \<Longrightarrow> addGranularity t g = Ok (nextBoundary g t)"
    and next_aligned: "aligned_to (eg_Unit g) t \<Longrightarrow> aligned_to (eg_Unit g) (nextBoundary g t)"
    and next_later: "aligned_to (eg_Unit g) t \<Longrightarrow> t + hour_ns \<le> nextBoundary g t"
begin

lemma iter_aligned: "aligned_to (eg_Unit g) t \<Longrightarrow> aligned_to (eg_Unit g) ((nextBoundary g ^^ i) t)"
  by (induction i) (auto intro: next_aligned)

lemma iter_step: "aligned_to (eg_Unit g) t \<Longrightarrow> (nextBoundary g ^^ i) t < (nextBoundary g ^^ Suc i) t"
  using next_later [OF iter_aligned, of t i] by simp

lemma iter_less: "aligned_to (eg_Unit g) t \<Longrightarrow> i < j \<Longrightarrow> (nextBoundary g ^^ i) t < (nextBoundary g ^^ j) t"
  using iter_step by (rule lift_Suc_mono_less)

text \<open>The loop ends, with one epoch for every boundary before the end of the range.\<close>

lemma sliceLoop_boundaries:
  assumes "aligned_to (eg_Unit g) t"
  shows "\<exists>n. sliceLoop T g dv e t acc =
             Some (Ok (acc @ map (\<lambda>i. newEpoch T dv ((nextBoundary g ^^ i) t) ((nextBoundary g ^^ Suc i) t)) [0..<n]))
           \<and> (\<forall>i<n. (nextBoundary g ^^ i) t < e) \<and> e \<le> (nextBoundary g ^^ n) t"
  using assms
proof (induction "nat (e - t)" arbitrary: t acc rule: less_induct)
  case less
  show ?case
  proof (cases "t < e")
    case False
    then show ?thesis by (intro exI [of _ 0]) (simp add: sliceLoop.simps [of T g dv e t])
  next
    case True
    let ?u = "nextBoundary g t"
    let ?first = "newEpoch T dv t ?u"
    have "nat (e - ?u) < nat (e - t)" using True next_later [OF less.prems] by simp
    from less.hyps [OF this next_aligned [OF less.prems], of "acc @ [?first]"]
    obtain n where n: "sliceLoop T g dv e ?u (acc @ [?first]) = Some (Ok ((acc @ [?first]) @
          map (\<lambda>i. newEpoch T dv ((nextBoundary g ^^ i) ?u) ((nextBoundary g ^^ Suc i) ?u)) [0..<n]))"
      and before: "\<forall>i<n. (nextBoundary g ^^ i) ?u < e" and stop: "e \<le> (nextBoundary g ^^ n) ?u"
      by blast
    have shift: "(nextBoundary g ^^ i) ?u = (nextBoundary g ^^ Suc i) t" for i
      by (simp add: funpow_swap1)
    have list: "map f [0..<Suc n] = f 0 # map (\<lambda>i. f (Suc i)) [0..<n]" for f :: "nat \<Rightarrow> EpochInfo"
      by (simp add: upt_rec [of 0] flip: map_Suc_upt del: upt_Suc)
    have "sliceLoop T g dv e t acc = sliceLoop T g dv e ?u (acc @ [?first])"
      using True add_Ok [OF less.prems] by (simp add: sliceLoop.simps [of T g dv e t])
    also have "\<dots> = Some (Ok (acc @ map (\<lambda>i. newEpoch T dv ((nextBoundary g ^^ i) t) ((nextBoundary g ^^ Suc i) t)) [0..<Suc n]))"
      unfolding n list by (simp add: shift del: funpow.simps) simp
    moreover have "\<forall>i<Suc n. (nextBoundary g ^^ i) t < e"
      using before True by (auto simp: shift less_Suc_eq_0_disj simp del: funpow.simps)
    ultimately show ?thesis using stop by (intro exI [of _ "Suc n"]) (simp add: shift del: funpow.simps)
  qed
qed

end

subsection \<open>The code keeps the contract\<close>

lemma hours_duration_eq:
  assumes "\<bar>v\<bar> \<le> 2562047"
  shows "hours_duration v = v * hour_ns"
proof -
  have "hours_duration v = sint (word_of_int (v * hour_ns) :: 64 word)"
    by (simp add: hours_duration_def)
  also have "\<dots> = signed_take_bit 63 (v * hour_ns)"
    by (simp only: sint_sbintrunc') simp
  also have "\<dots> = v * hour_ns"
    by (rule signed_take_bit_int_eq_self) (use assms in auto)
  finally show ?thesis .
qed

lemma day_start_add: "day_start n + k * day_ns = day_start (n + k)"
  by (simp add: day_start_def algebra_simps)

lemma add_boundary:
  assumes "representable g" and "0 \<le> sint (eg_Value g)"
  shows "addGranularity (boundary (eg_Unit g) k) g = Ok (boundary (eg_Unit g) (k + sint (eg_Value g)))"
proof (cases "eg_Unit g")
  case UNIT_HOUR
  with assms have "hours_duration (sint (eg_Value g)) = sint (eg_Value g) * hour_ns"
    by (simp add: representable_def hours_duration_eq)
  then show ?thesis
    using UNIT_HOUR assms(2) by (simp add: addGranularity_def time_Add_forward algebra_simps)
next
  case UNIT_DAY
  then show ?thesis
    using assms(2) day_start_add [of k "sint (eg_Value g)"]
    by (simp add: addGranularity_def time_AddDate64_forward time_AddDate_days)
next
  case UNIT_WEEK
  then show ?thesis
    using assms(2) day_start_add [of "7 * k" "sint (eg_Value g) * 7"]
    by (simp add: addGranularity_def time_AddDate64_forward time_AddDate_days algebra_simps)
next
  case UNIT_MONTH
  then have "boundary UNIT_MONTH k \<le> boundary UNIT_MONTH (k + sint (eg_Value g))" using assms(2) by (simp only: boundary_le_iff)
  then show ?thesis
    using UNIT_MONTH by (simp add: addGranularity_def time_AddDate64_forward time_AddDate_months)
next
  case (UNIT_other n)
  with assms(1) show ?thesis by (simp add: representable_def)
qed

locale usable_granularity =
  fixes g :: EpochGranularity
  assumes usable: "usable g"
begin

lemma representable: "representable g" and value_pos: "1 \<le> sint (eg_Value g)"
  using usable by (auto simp: usable_def)

lemma next_boundary:
  "nextBoundary g (boundary (eg_Unit g) k) = boundary (eg_Unit g) (k + sint (eg_Value g))"
  using value_pos by (simp add: nextBoundary_def add_boundary representable)

lemma iter_boundary:
  "(nextBoundary g ^^ i) (boundary (eg_Unit g) k) = boundary (eg_Unit g) (k + int i * sint (eg_Value g))"
  by (induction i) (simp_all add: next_boundary algebra_simps)

lemma boundary_later: "boundary (eg_Unit g) (k + 1) \<le> boundary (eg_Unit g) (k + sint (eg_Value g))"
  using value_pos by (simp add: boundary_le_iff)

end

sublocale usable_granularity \<subseteq> granularity_grid g
proof
  fix t
  obtain k where k: "truncateToGranularity t g = boundary (eg_Unit g) k"
      "boundary (eg_Unit g) k \<le> t" "t < boundary (eg_Unit g) (k + 1)"
    using truncate_boundary by blast
  show "truncateToGranularity t g \<le> t" and "aligned_to (eg_Unit g) (truncateToGranularity t g)"
    using k by (auto simp: aligned_boundary)
  show "t < nextBoundary g (truncateToGranularity t g)"
    using k(3) boundary_later [of k] by (simp add: k(1) next_boundary)
next
  fix t assume "aligned_to (eg_Unit g) t"
  then obtain k where t: "t = boundary (eg_Unit g) k" by (auto simp: aligned_boundary)
  show "addGranularity t g = Ok (nextBoundary g t)" and "aligned_to (eg_Unit g) (nextBoundary g t)"
    using value_pos by (auto simp: t add_boundary representable next_boundary aligned_boundary)
  show "t + hour_ns \<le> nextBoundary g t"
    using boundary_step [of "eg_Unit g" k] boundary_later [of k] by (simp add: t next_boundary)
qed

text \<open>The granularity the generator falls back to, one day, is usable.\<close>

interpretation daily: usable_granularity "\<lparr>eg_Value = 1, eg_Unit = UNIT_DAY\<rparr>"
  by unfold_locales (simp add: usable_def representable_def)

end
