(* ===== verification/Epoch_Slicing.thy ===== *)
theory Epoch_Slicing
  imports Epoch_Grid
begin

text \<open>
  What \<open>sliceTimeRange\<close> returns: for every usable granularity a non-empty list of consecutive
  epochs on calendar boundaries that covers the requested range without gaps or overlaps; for a
  granularity of zero or of negative hours nothing, because the loop never ends; for negative days
  or weeks, epochs that go back in time; for a unit the schema does not name, a panic.
\<close>

subsection \<open>The result in closed form\<close>

context granularity_grid
begin

lemma sliceTimeRange_boundaries:
  assumes "AsTime T (trf_StartInclusive r) < AsTime T (trf_EndExclusive r)"
  defines "t \<equiv> truncateToGranularity (AsTime T (trf_StartInclusive r)) g"
  shows "\<exists>n>0. sliceTimeRange T r g dv =
             Some (Ok (map (\<lambda>i. newEpoch T dv ((nextBoundary g ^^ i) t) ((nextBoundary g ^^ Suc i) t)) [0..<n]))
           \<and> (\<forall>i<n. (nextBoundary g ^^ i) t < AsTime T (trf_EndExclusive r))
           \<and> AsTime T (trf_EndExclusive r) \<le> (nextBoundary g ^^ n) t"
proof -
  let ?e = "AsTime T (trf_EndExclusive r)"
  have al: "aligned_to (eg_Unit g) t" unfolding t_def by (rule trunc_aligned)
  obtain n where n: "sliceLoop T g dv ?e t [] =
        Some (Ok (map (\<lambda>i. newEpoch T dv ((nextBoundary g ^^ i) t) ((nextBoundary g ^^ Suc i) t)) [0..<n]))"
    "\<forall>i<n. (nextBoundary g ^^ i) t < ?e" "?e \<le> (nextBoundary g ^^ n) t"
    using sliceLoop_boundaries [OF al, of T dv ?e "[]"] by auto
  have "t < ?e" using assms(1) trunc_le [of "AsTime T (trf_StartInclusive r)"] by (simp add: t_def)
  with n(3) have "n > 0" by (cases n) auto
  with n assms(1) show ?thesis
    by (intro exI [of _ n]) (auto simp: sliceTimeRange_def Let_def simp flip: t_def)
qed

end

context usable_granularity
begin

lemma is_grid: "granularity_grid g"
  by (rule granularity_grid_axioms)

end

lemma usable_grid: "usable g \<Longrightarrow> granularity_grid g"
  by (rule usable_granularity.is_grid) (rule usable_granularity.intro)

text \<open>The boundaries of the slices of a range, numbered from the truncated start.\<close>

definition sliceBoundary :: "timestamppb \<Rightarrow> TimeRangeFilter \<Rightarrow> EpochGranularity \<Rightarrow> nat \<Rightarrow> time" where
  "sliceBoundary T r g i = (nextBoundary g ^^ i) (truncateToGranularity (AsTime T (trf_StartInclusive r)) g)"

definition sliceEpochs ::
  "timestamppb \<Rightarrow> TimeRangeFilter \<Rightarrow> EpochGranularity \<Rightarrow> dimension_values \<Rightarrow> nat \<Rightarrow> EpochInfo list" where
  "sliceEpochs T r g dv n =
     map (\<lambda>i. newEpoch T dv (sliceBoundary T r g i) (sliceBoundary T r g (Suc i))) [0..<n]"

lemma sliceBoundary_0: "sliceBoundary T r g 0 = truncateToGranularity (AsTime T (trf_StartInclusive r)) g"
  by (simp add: sliceBoundary_def)

lemma sliceBoundary_start: "usable g \<Longrightarrow> sliceBoundary T r g 0 \<le> AsTime T (trf_StartInclusive r)"
  using granularity_grid.trunc_le [OF usable_grid] by (simp add: sliceBoundary_0)

lemma sliceBoundary_step: "usable g \<Longrightarrow> sliceBoundary T r g i < sliceBoundary T r g (Suc i)"
  unfolding sliceBoundary_def
  by (intro granularity_grid.iter_step granularity_grid.trunc_aligned usable_grid)

lemma sliceBoundary_aligned: "usable g \<Longrightarrow> aligned_to (eg_Unit g) (sliceBoundary T r g i)"
  unfolding sliceBoundary_def
  by (intro granularity_grid.iter_aligned granularity_grid.trunc_aligned usable_grid)

lemma sliceTimeRange_slices:
  assumes "usable g" and "AsTime T (trf_StartInclusive r) < AsTime T (trf_EndExclusive r)"
  shows "\<exists>n>0. sliceTimeRange T r g dv = Some (Ok (sliceEpochs T r g dv n))
           \<and> (\<forall>i<n. sliceBoundary T r g i < AsTime T (trf_EndExclusive r))
           \<and> AsTime T (trf_EndExclusive r) \<le> sliceBoundary T r g n"
  unfolding sliceBoundary_def sliceEpochs_def
  using granularity_grid.sliceTimeRange_boundaries [OF usable_grid] assms by blast

text \<open>The number of slices does not depend on the dimension values.\<close>

lemma sliceTimeRange_count:
  assumes "usable g" and "AsTime T (trf_StartInclusive r) < AsTime T (trf_EndExclusive r)"
    and "n > 0" and "\<forall>i<n. sliceBoundary T r g i < AsTime T (trf_EndExclusive r)"
    and "AsTime T (trf_EndExclusive r) \<le> sliceBoundary T r g n"
  shows "sliceTimeRange T r g dv = Some (Ok (sliceEpochs T r g dv n))"
proof -
  obtain m where m: "m > 0" "sliceTimeRange T r g dv = Some (Ok (sliceEpochs T r g dv m))"
      "\<forall>i<m. sliceBoundary T r g i < AsTime T (trf_EndExclusive r)"
      "AsTime T (trf_EndExclusive r) \<le> sliceBoundary T r g m"
    using sliceTimeRange_slices [OF assms(1,2)] by blast
  have "m = n"
    using m(3,4) assms(4,5) by (metis linorder_neqE_nat not_less)
  with m show ?thesis by simp
qed

lemma sliceTimeRange_Ok_nonempty_range:
  "sliceTimeRange T r g dv = Some (Ok es) \<Longrightarrow> AsTime T (trf_StartInclusive r) < AsTime T (trf_EndExclusive r)"
  by (auto simp: sliceTimeRange_def Let_def split: if_splits)

context timestamp_codec
begin

lemma sliceEpochs_ends:
  "length (sliceEpochs T r g dv n) = n"
  "i < n \<Longrightarrow> epochStart T (sliceEpochs T r g dv n ! i) = sliceBoundary T r g i"
  "i < n \<Longrightarrow> epochEnd T (sliceEpochs T r g dv n ! i) = sliceBoundary T r g (Suc i)"
  by (simp_all add: sliceEpochs_def)

end

subsection \<open>An example\<close>

text \<open>
  The range of the generator's own daily test, 2023-10-25 08:30 to 2023-10-28 10:00 UTC, sliced
  into days: four epochs, from the midnight before the start to the midnight after the end.
\<close>

abbreviation daily :: EpochGranularity where
  "daily \<equiv> \<lparr>eg_Value = 1, eg_Unit = UNIT_DAY\<rparr>"

definition oct_range :: TimeRangeFilter where
  "oct_range =
     \<lparr>trf_StartInclusive = Some \<lparr>ts_Seconds = 1698222600, ts_Nanos = 0\<rparr>,
      trf_EndExclusive = Some \<lparr>ts_Seconds = 1698487200, ts_Nanos = 0\<rparr>\<rparr>"

lemma oct_range_ends:
  "AsTime unix_codec (trf_StartInclusive oct_range) = 1698222600000000000"
  "AsTime unix_codec (trf_EndExclusive oct_range) = 1698487200000000000"
  by (simp_all add: oct_range_def unix_codec_def)

lemma oct_range_trunc: "truncateToGranularity 1698222600000000000 daily = 1698192000000000000"
  by (simp add: truncateToGranularity_def truncateToDay_eq day_start_def day_number_def)

lemma oct_range_boundary: "sliceBoundary unix_codec oct_range daily i = 1698192000000000000 + int i * day_ns"
proof (induction i)
  case 0
  show ?case by (simp add: sliceBoundary_0 oct_range_ends oct_range_trunc)
next
  case (Suc i)
  have "nextBoundary daily t = t + day_ns" for t
    by (simp add: nextBoundary_def addGranularity_def time_AddDate64_forward time_AddDate_days)
  with Suc show ?case by (simp add: sliceBoundary_def)
qed

lemma oct_range_slices:
  "sliceTimeRange unix_codec oct_range daily dv = Some (Ok (sliceEpochs unix_codec oct_range daily dv 4))"
  by (rule sliceTimeRange_count [OF daily.usable])
     (auto simp: oct_range_ends oct_range_boundary)

subsection \<open>Coverage\<close>

text \<open>
  C1: for a usable granularity and a non-empty range, \<open>sliceTimeRange\<close> returns a non-empty list of
  epochs: the first starts at the truncated start of the range, each ends where the next one
  starts, each ends after it starts, and the end of the range lies in the last one.
\<close>

theorem sliceTimeRange_consecutive:
  assumes "timestamp_codec T" and "usable g"
    and "AsTime T (trf_StartInclusive r) < AsTime T (trf_EndExclusive r)"
  shows "\<exists>es. sliceTimeRange T r g dv = Some (Ok es) \<and> es \<noteq> []
    \<and> epochStart T (hd es) = truncateToGranularity (AsTime T (trf_StartInclusive r)) g
    \<and> (\<forall>i. Suc i < length es \<longrightarrow> epochEnd T (es ! i) = epochStart T (es ! Suc i))
    \<and> (\<forall>e \<in> set es. epochStart T e < epochEnd T e)
    \<and> epochStart T (last es) < AsTime T (trf_EndExclusive r)
    \<and> AsTime T (trf_EndExclusive r) \<le> epochEnd T (last es)"
proof -
  note ends = timestamp_codec.sliceEpochs_ends [OF assms(1)]
  obtain n where n: "n > 0" "sliceTimeRange T r g dv = Some (Ok (sliceEpochs T r g dv n))"
      "\<forall>i<n. sliceBoundary T r g i < AsTime T (trf_EndExclusive r)"
      "AsTime T (trf_EndExclusive r) \<le> sliceBoundary T r g n"
    using sliceTimeRange_slices [OF assms(2,3)] by blast
  then have ne: "sliceEpochs T r g dv n \<noteq> []" by (simp add: sliceEpochs_def)
  with n show ?thesis
    by (intro exI [of _ "sliceEpochs T r g dv n"])
       (auto simp: hd_conv_nth last_conv_nth in_set_conv_nth ends sliceBoundary_step [OF assms(2)] simp flip: sliceBoundary_0)
qed

theorem sliceTimeRange_consecutive_witness:
  "\<exists>es. sliceTimeRange unix_codec oct_range daily fmempty = Some (Ok es) \<and> length es = 4
    \<and> epochStart unix_codec (hd es) = 1698192000000000000
    \<and> 1698487200000000000 \<le> epochEnd unix_codec (last es)"
proof -
  have "AsTime unix_codec (trf_StartInclusive oct_range) < AsTime unix_codec (trf_EndExclusive oct_range)"
    by (simp add: oct_range_ends)
  from sliceTimeRange_consecutive [OF unix.timestamp_codec_axioms daily.usable this, of fmempty]
  show ?thesis
    by (auto simp: oct_range_slices oct_range_ends oct_range_trunc unix.sliceEpochs_ends)
qed

text \<open>
  C16: every instant of the requested range lies in exactly one of the returned epochs, so the
  epochs neither overlap nor leave a gap.
\<close>

theorem sliceTimeRange_unique_epoch:
  assumes "timestamp_codec T" and "usable g"
    and "AsTime T (trf_StartInclusive r) \<le> x" and "x < AsTime T (trf_EndExclusive r)"
    and "sliceTimeRange T r g dv = Some (Ok es)"
  shows "\<exists>!i. i < length es \<and> epochStart T (es ! i) \<le> x \<and> x < epochEnd T (es ! i)"
proof -
  have "AsTime T (trf_StartInclusive r) < AsTime T (trf_EndExclusive r)" using assms by simp
  then obtain n where "sliceTimeRange T r g dv = Some (Ok (sliceEpochs T r g dv n))"
      "AsTime T (trf_EndExclusive r) \<le> sliceBoundary T r g n"
    using sliceTimeRange_slices [OF assms(2)] by blast
  with assms(5) have es: "es = sliceEpochs T r g dv n" and "x < sliceBoundary T r g n"
    using assms(4) by auto
  with sliceBoundary_start [OF assms(2), of T r] assms(3)
  have "\<exists>!i. i < n \<and> sliceBoundary T r g i \<le> x \<and> x < sliceBoundary T r g (Suc i)"
    by (intro unique_interval sliceBoundary_step [OF assms(2)]) auto
  then show ?thesis
    by (simp add: es timestamp_codec.sliceEpochs_ends [OF assms(1)] cong: conj_cong)
qed

theorem sliceTimeRange_unique_epoch_witness:
  "\<exists>!i. i < 4 \<and> epochStart unix_codec (sliceEpochs unix_codec oct_range daily fmempty 4 ! i) \<le> 1698300000000000000
    \<and> 1698300000000000000 < epochEnd unix_codec (sliceEpochs unix_codec oct_range daily fmempty 4 ! i)"
proof -
  have "AsTime unix_codec (trf_StartInclusive oct_range) \<le> 1698300000000000000"
    "1698300000000000000 < AsTime unix_codec (trf_EndExclusive oct_range)"
    by (simp_all add: oct_range_ends)
  from sliceTimeRange_unique_epoch [OF unix.timestamp_codec_axioms daily.usable this oct_range_slices, of fmempty]
  show ?thesis by (simp only: unix.sliceEpochs_ends(1))
qed

text \<open>C17: every returned epoch starts and ends on a calendar boundary of the requested unit.\<close>

theorem sliceTimeRange_aligned:
  assumes "timestamp_codec T" and "usable g"
    and "sliceTimeRange T r g dv = Some (Ok es)" and "e \<in> set es"
  shows "aligned_to (eg_Unit g) (epochStart T e) \<and> aligned_to (eg_Unit g) (epochEnd T e)"
proof -
  obtain n where "sliceTimeRange T r g dv = Some (Ok (sliceEpochs T r g dv n))"
    using sliceTimeRange_slices [OF assms(2) sliceTimeRange_Ok_nonempty_range [OF assms(3)]] by blast
  with assms(3,4) show ?thesis
    by (auto simp: in_set_conv_nth timestamp_codec.sliceEpochs_ends [OF assms(1)] sliceBoundary_aligned [OF assms(2)])
qed

theorem sliceTimeRange_aligned_witness:
  "\<exists>e \<in> set (sliceEpochs unix_codec oct_range daily fmempty 4).
     aligned_to UNIT_DAY (epochStart unix_codec e) \<and> aligned_to UNIT_DAY (epochEnd unix_codec e)"
proof -
  let ?es = "sliceEpochs unix_codec oct_range daily fmempty 4"
  have "?es ! 0 \<in> set ?es" by (rule nth_mem) (simp add: sliceEpochs_def)
  with sliceTimeRange_aligned [OF unix.timestamp_codec_axioms daily.usable oct_range_slices this]
  show ?thesis by auto
qed

text \<open>
  C18: \<open>truncateToGranularity\<close> is the floor of an instant on the calendar: the latest boundary of the
  unit that is not after it (unknown units are treated as days).
\<close>

theorem truncateToGranularity_floor:
  "aligned_to (eg_Unit g) (truncateToGranularity t g) \<and> truncateToGranularity t g \<le> t
    \<and> \<not> (\<exists>b. aligned_to (eg_Unit g) b \<and> truncateToGranularity t g < b \<and> b \<le> t)"
proof -
  obtain k where k: "truncateToGranularity t g = boundary (eg_Unit g) k"
      "boundary (eg_Unit g) k \<le> t" "t < boundary (eg_Unit g) (k + 1)"
    using truncate_boundary by blast
  have "\<not> (boundary (eg_Unit g) k < boundary (eg_Unit g) j \<and> boundary (eg_Unit g) j \<le> t)" for j
    using k(3) boundary_le_iff [of "eg_Unit g" "k + 1" j] by (auto simp: boundary_less_iff)
  with k show ?thesis by (auto simp: aligned_boundary)
qed

subsection \<open>Number of slices\<close>

definition unit_ns :: "TimeUnit \<Rightarrow> int" where
  "unit_ns u = (case u of UNIT_HOUR \<Rightarrow> hour_ns | UNIT_DAY \<Rightarrow> day_ns | UNIT_WEEK \<Rightarrow> 7 * day_ns | _ \<Rightarrow> 0)"

lemma boundary_fixed:
  "u = UNIT_HOUR \<or> u = UNIT_DAY \<or> u = UNIT_WEEK \<Longrightarrow> boundary u (k + j) = boundary u k + j * unit_ns u"
  by (auto simp: unit_ns_def day_start_def algebra_simps)

lemma sliceBoundary_fixed:
  assumes "usable g" and "eg_Unit g = UNIT_HOUR \<or> eg_Unit g = UNIT_DAY \<or> eg_Unit g = UNIT_WEEK"
  shows "sliceBoundary T r g i = sliceBoundary T r g 0 + int i * (sint (eg_Value g) * unit_ns (eg_Unit g))"
proof -
  obtain k where "truncateToGranularity (AsTime T (trf_StartInclusive r)) g = boundary (eg_Unit g) k"
    using truncate_boundary by blast
  then show ?thesis
    using usable_granularity.iter_boundary [OF usable_granularity.intro, OF assms(1)]
    by (simp add: sliceBoundary_def boundary_fixed [OF assms(2)] mult.assoc)
qed

text \<open>
  For hours, days and weeks the number of epochs is the length of the range from its truncated
  start, divided by the granularity and rounded up.
\<close>

lemma sliceTimeRange_length:
  assumes "usable g" and "eg_Unit g = UNIT_HOUR \<or> eg_Unit g = UNIT_DAY \<or> eg_Unit g = UNIT_WEEK"
    and "sliceTimeRange T r g dv = Some (Ok es)"
  shows "(int (length es) - 1) * (sint (eg_Value g) * unit_ns (eg_Unit g))
        < AsTime T (trf_EndExclusive r) - truncateToGranularity (AsTime T (trf_StartInclusive r)) g
    \<and> AsTime T (trf_EndExclusive r) - truncateToGranularity (AsTime T (trf_StartInclusive r)) g
        \<le> int (length es) * (sint (eg_Value g) * unit_ns (eg_Unit g))"
proof -
  obtain n where n: "n > 0" "sliceTimeRange T r g dv = Some (Ok (sliceEpochs T r g dv n))"
      "\<forall>i<n. sliceBoundary T r g i < AsTime T (trf_EndExclusive r)"
      "AsTime T (trf_EndExclusive r) \<le> sliceBoundary T r g n"
    using sliceTimeRange_slices [OF assms(1) sliceTimeRange_Ok_nonempty_range [OF assms(3)]] by blast
  then have len: "length es = n" using assms(3) by (simp add: sliceEpochs_def)
  have "sliceBoundary T r g (n - 1) < AsTime T (trf_EndExclusive r)" using n by simp
  with n(1,4) show ?thesis
    unfolding len sliceBoundary_fixed [OF assms(1,2), of T r "n - 1"] sliceBoundary_fixed [OF assms(1,2), of T r n]
    by (simp add: sliceBoundary_0 of_nat_diff)
qed

lemma sliceTimeRange_length_example:
  "(4 - 1) * day_ns < 1698487200000000000 - truncateToGranularity 1698222600000000000 daily
    \<and> 1698487200000000000 - truncateToGranularity 1698222600000000000 daily \<le> 4 * day_ns"
  using sliceTimeRange_length [OF daily.usable _ oct_range_slices, of fmempty]
  by (simp add: oct_range_ends sliceEpochs_def unit_ns_def)

subsection \<open>Granularities that are not usable\<close>

text \<open>A loop that stays among instants before the end of the range does not return.\<close>

lemma sliceLoop_stuck:
  assumes "t \<in> I" and stay: "\<And>t. t \<in> I \<Longrightarrow> t < e \<and> (\<exists>u \<in> I. addGranularity t g = Ok u)"
  shows "sliceLoop T g dv e t acc = None"
proof (rule ccontr)
  assume "sliceLoop T g dv e t acc \<noteq> None"
  then obtain res where ret: "sliceLoop T g dv e t acc = Some res" by blast
  have "\<not> (g = g \<and> e = e \<and> t \<in> I)"
  proof (rule sliceLoop.raw_induct [where P = "\<lambda>T g' dv e' t acc res. \<not> (g' = g \<and> e' = e \<and> t \<in> I)", OF _ ret])
    fix f T g' dv e' t acc res
    assume IH: "\<And>T g' dv e' t acc res. f T g' dv e' t acc = Some res \<Longrightarrow> \<not> (g' = g \<and> e' = e \<and> t \<in> I)"
      and eq: "(if t < e' then (case addGranularity t g' of Ok u \<Rightarrow> f T g' dv e' u (acc @ [newEpoch T dv t u])
          | Err e \<Rightarrow> Some (Err e) | Panic p \<Rightarrow> Some (Panic p)) else Some (Ok acc)) = Some res"
    show "\<not> (g' = g \<and> e' = e \<and> t \<in> I)"
    proof
      assume here: "g' = g \<and> e' = e \<and> t \<in> I"
      then obtain u where u: "u \<in> I" "addGranularity t g = Ok u" "t < e" using stay by blast
      with eq here have "f T g dv e u (acc @ [newEpoch T dv t u]) = Some res" by simp
      from IH [OF this] u(1) show False by simp
    qed
  qed
  with assms(1) show False by simp
qed

text \<open>
  A granularity stands still when its value is zero, or when it is a negative number of hours: these
  are added with saturation, so that the loop ends up at the earliest instant and stays there.
\<close>

definition stands_still :: "EpochGranularity \<Rightarrow> bool" where
  "stands_still g \<longleftrightarrow> sint (eg_Value g) = 0 \<or> sint (eg_Value g) < 0 \<and> eg_Unit g = UNIT_HOUR"

lemma addGranularity_zero:
  assumes "representable g" and "sint (eg_Value g) = 0"
  shows "addGranularity t g = Ok t"
  using assms by (cases "eg_Unit g")
    (simp_all add: addGranularity_def representable_def hours_duration_eq time_Add_forward time_AddDate64_forward time_AddDate_days)

lemma time_min_valid: "valid_time t \<Longrightarrow> time_min + 2 * second_ns < t"
  by (simp add: valid_time_def time_min_def at_internal_def day_start_def)

lemma hours_back:
  assumes "go_time t" and "t < e" and "time_min + 2 * second_ns < e" and "d \<le> 0"
  shows "go_time (time_Add t d) \<and> time_Add t d < e"
proof -
  have "time_Add t d < e" using time_Add_back [OF assms(1,4)] assms(2,3) by linarith
  moreover have "time_min \<le> time_Add t d"
    using assms(1) by (auto simp: time_Add_def time_min_def at_internal_def)
  moreover have "time_min + 2 * second_ns < time_end" by (simp add: time_min_def time_end_def at_internal_def)
  ultimately show ?thesis using time_Add_back [OF assms(1,4)] assms(1) by (auto simp: go_time_def)
qed

text \<open>
  With a granularity that stands still (and a known unit), \<open>sliceTimeRange\<close> does not return on any
  non-empty range: the loop makes no progress towards the end of the range.
\<close>

lemma sliceTimeRange_diverges:
  assumes "representable g" and "stands_still g" and "valid_time (AsTime T (trf_StartInclusive r))"
    and "AsTime T (trf_StartInclusive r) < AsTime T (trf_EndExclusive r)"
  shows "sliceTimeRange T r g dv = None"
proof -
  let ?s = "AsTime T (trf_StartInclusive r)" and ?e = "AsTime T (trf_EndExclusive r)"
  let ?t = "truncateToGranularity ?s g"
  have "?t \<le> ?s" using truncate_boundary [of ?s g] by auto
  then have less: "?t < ?e" using assms(4) by simp
  have "sliceLoop T g dv ?e ?t [] = None"
  proof (cases "sint (eg_Value g) = 0")
    case True
    show ?thesis
      by (rule sliceLoop_stuck [of _ "{?t}"]) (use less addGranularity_zero [OF assms(1) True] in auto)
  next
    case False
    with assms(2) have hour: "eg_Unit g = UNIT_HOUR" "sint (eg_Value g) \<le> 0" by (auto simp: stands_still_def)
    then have "hours_duration (sint (eg_Value g)) \<le> 0" using assms(1) by (simp add: representable_def hours_duration_eq)
    note step = hours_back [OF _ _ _ this]
    have t: "?t = ?s div hour_ns * hour_ns" using hour(1) by (rule truncate_hour)
    have "?s < ?t + hour_ns" unfolding t using div_mult_mod_eq [of ?s hour_ns] pos_mod_bound [of hour_ns ?s] by simp
    moreover have "day_start 0 \<le> ?s" using assms(3) by (simp add: valid_time_def)
    moreover have "time_min + hour_ns \<le> day_start 0" by (simp add: time_min_def at_internal_def day_start_def)
    moreover have "?s < time_end" using valid_go_time [OF assms(3)] by (simp add: go_time_def)
    ultimately have "go_time ?t" using \<open>?t \<le> ?s\<close> by (simp add: go_time_def)
    moreover have "time_min + 2 * second_ns < ?e" using time_min_valid [OF assms(3)] assms(4) by simp
    ultimately show ?thesis
      by (intro sliceLoop_stuck [of _ "{t. go_time t \<and> t < ?e}"])
        (use less step hour in \<open>auto simp: addGranularity_def\<close>)
  qed
  then show ?thesis using assms(4) by (simp add: sliceTimeRange_def Let_def)
qed

text \<open>
  A negative number of days or weeks is not caught either.  The loop goes back in time until the
  64-bit clock wraps around into the far future, and then returns what it has collected.
\<close>

definition goes_back :: "EpochGranularity \<Rightarrow> bool" where
  "goes_back g \<longleftrightarrow> sint (eg_Value g) < 0 \<and> (eg_Unit g = UNIT_DAY \<or> eg_Unit g = UNIT_WEEK)"

lemma goes_back_step:
  assumes "goes_back g" and "go_time t"
  shows "\<exists>k < 0. - 100000000000 \<le> k \<and> addGranularity t g =
    Ok (if time_min \<le> t + k * day_ns then t + k * day_ns else t + k * day_ns + 2 ^ 64 * second_ns)"
proof -
  have low: "- 2147483648 \<le> sint (eg_Value g)" using sint_greater_eq [of "eg_Value g"] by simp
  from assms(1) consider "eg_Unit g = UNIT_DAY" | "eg_Unit g = UNIT_WEEK" by (auto simp: goes_back_def)
  then show ?thesis
  proof cases
    case 1
    show ?thesis
      by (rule exI [of _ "sint (eg_Value g)"])
        (use 1 low assms in \<open>simp add: addGranularity_def goes_back_def time_AddDate64_back\<close>)
  next
    case 2
    show ?thesis
      by (rule exI [of _ "sint (eg_Value g) * 7"])
        (use 2 low assms in \<open>simp add: addGranularity_def goes_back_def time_AddDate64_back\<close>)
  qed
qed

lemma sliceLoop_back:
  assumes "goes_back g" and "go_time t" and "valid_time e"
  shows "\<exists>es. sliceLoop T g dv e t acc = Some (Ok (acc @ es)) \<and> (t < e \<longrightarrow> es \<noteq> [])"
  using assms(2)
proof (induction "nat (t - time_min)" arbitrary: t acc rule: less_induct)
  case less
  obtain k where k: "k < 0" "- 100000000000 \<le> k" "addGranularity t g =
      Ok (if time_min \<le> t + k * day_ns then t + k * day_ns else t + k * day_ns + 2 ^ 64 * second_ns)"
    using goes_back_step [OF assms(1) less.prems] by blast
  show ?case
  proof (cases "t < e")
    case False
    then show ?thesis by (simp add: sliceLoop.simps [of T g dv e t])
  next
    case before: True
    show ?thesis
    proof (cases "time_min \<le> t + k * day_ns")
      case True
      let ?u = "t + k * day_ns"
      have "nat (?u - time_min) < nat (t - time_min)" "go_time ?u" using True k(1) less.prems by (simp_all add: go_time_def)
      from less.hyps [OF this, of "acc @ [newEpoch T dv t ?u]"] True before k(3) show ?thesis
        by (auto simp: sliceLoop.simps [of T g dv e t])
    next
      case False
      let ?u = "t + k * day_ns + 2 ^ 64 * second_ns"
      have "time_min - 100000000000 * day_ns + 2 ^ 64 * second_ns \<le> ?u" using less.prems k(2) by (simp add: go_time_def)
      moreover have "e < time_min - 100000000000 * day_ns + 2 ^ 64 * second_ns"
        using assms(3) by (simp add: valid_time_def time_min_def at_internal_def day_start_def year_start_def)
      ultimately have "\<not> ?u < e" by linarith
      then have "sliceLoop T g dv e ?u (acc @ [newEpoch T dv t ?u]) = Some (Ok (acc @ [newEpoch T dv t ?u]))"
        by (subst sliceLoop.simps) (simp only: if_False)
      with False before k(3) show ?thesis by (simp add: sliceLoop.simps [of T g dv e t])
    qed
  qed
qed

lemma sliceTimeRange_back:
  assumes "goes_back g" and "valid_time (AsTime T (trf_StartInclusive r))" and "valid_time (AsTime T (trf_EndExclusive r))"
    and "AsTime T (trf_StartInclusive r) < AsTime T (trf_EndExclusive r)"
  shows "\<exists>es. sliceTimeRange T r g dv = Some (Ok es)"
proof -
  let ?s = "AsTime T (trf_StartInclusive r)" and ?e = "AsTime T (trf_EndExclusive r)"
  let ?t = "truncateToGranularity ?s g"
  have less: "?t \<le> ?s" using truncate_boundary [of ?s g] by auto
  have "day_start (- 7) \<le> ?t"
  proof -
    have "0 \<le> day_number ?s div 7" using valid_day [OF assms(2)] by (simp add: pos_imp_zdiv_nonneg_iff)
    then have "- 7 \<le> day_number ?s" "- 7 \<le> 7 * (day_number ?s div 7)" using valid_day [OF assms(2)] by linarith+
    then show ?thesis
      using assms(1) by (auto simp: goes_back_def truncate_week) (simp add: truncateToGranularity_def truncateToDay_eq)
  qed
  moreover have "time_min \<le> day_start (- 7)" by (simp add: time_min_def at_internal_def day_start_def)
  ultimately have "go_time ?t" using less valid_go_time [OF assms(2)] by (simp add: go_time_def)
  from sliceLoop_back [OF assms(1) this assms(3), of T dv "[]"] less assms(4) show ?thesis
    by (auto simp: sliceTimeRange_def Let_def)
qed

text \<open>
  A unit the schema does not name passes \<open>truncateToGranularity\<close> (as a day) and then makes
  \<open>addGranularity\<close>, and with it \<open>sliceTimeRange\<close>, panic on every non-empty range.
\<close>

lemma sliceTimeRange_unknown_unit:
  assumes "eg_Unit g = UNIT_other n"
    and "AsTime T (trf_StartInclusive r) < AsTime T (trf_EndExclusive r)"
  shows "sliceTimeRange T r g dv = Some (Panic (''unknown granularity unit '' @ string_of_int (sint n)))"
proof -
  let ?t = "truncateToGranularity (AsTime T (trf_StartInclusive r)) g"
  have "?t < AsTime T (trf_EndExclusive r)"
    using truncate_boundary [of "AsTime T (trf_StartInclusive r)" g] assms(2) by auto
  then show ?thesis
    using assms by (simp add: sliceTimeRange_def Let_def sliceLoop.simps [of T g dv _ ?t] addGranularity_def)
qed

lemma sliceTimeRange_unknown_unit_witness:
  "sliceTimeRange unix_codec oct_range \<lparr>eg_Value = 1, eg_Unit = UNIT_other 7\<rparr> fmempty =
     Some (Panic (''unknown granularity unit '' @ string_of_int (sint (7 :: 32 word))))"
  by (rule sliceTimeRange_unknown_unit) (simp_all add: oct_range_ends)

end
