(* ===== verification/Epoch_Requests.thy ===== *)
theory Epoch_Requests
  imports Epoch_Slicing
begin

text \<open>
  From a request to its epochs: the cross product of the dimension values against the library's
  \<^const>\<open>product_lists\<close>, the result of \<open>GenerateEpochs\<close> on well-formed requests, and every way it
  fails.
\<close>

subsection \<open>Dimension values\<close>

lemma set_sorted_keys [simp]: "set (sorted_keys m) = fmdom' m"
  by (simp add: sorted_keys_def fmdom'_alt_def)

lemma cloneLoop_lookup:
  "fmlookup (fold (\<lambda>key cloned. case fmlookup m key of None \<Rightarrow> cloned | Some value \<Rightarrow> fmupd key value cloned) ks c) k =
     (if k \<in> set ks \<and> fmlookup m k \<noteq> None then fmlookup m k else fmlookup c k)"
  by (induction ks arbitrary: c) (auto split: option.splits)

lemma cloneDimensionValues_id [simp]: "cloneDimensionValues m = m"
proof (rule fmap_ext)
  fix k
  show "fmlookup (cloneDimensionValues m) k = fmlookup m k"
  proof (cases "fmdom m = {||}")
    case True
    then have "fmlookup m k = None" by (metis fempty_iff fmdom_notD)
    with True show ?thesis by (simp add: cloneDimensionValues_def)
  next
    case False
    then show ?thesis
      by (auto simp: cloneDimensionValues_def cloneLoop_lookup fmdom'_notD intro: fmdom'I)
  qed
qed

text \<open>
  The axes of a request are its dimension partitions that name a column and at least one value;
  the others do not contribute.
\<close>

definition partition_axis :: "DimensionPartition \<Rightarrow> (string \<times> string list) option" where
  "partition_axis p =
     (case (dp_Column p, dp_Values p) of
        (Some c, Some vs) \<Rightarrow> if pv_Values vs = [] then None else Some (pc_Name c, pv_Values vs)
      | _ \<Rightarrow> None)"

definition dimension_axes :: "AdmitDatasetRequest \<Rightarrow> (string \<times> string list) list" where
  "dimension_axes request =
     (case Option.bind (ar_Source request) ds_Partition of
        None \<Rightarrow> [] | Some p \<Rightarrow> List.map_filter partition_axis (p_DimensionPartitions p))"

definition assign :: "string list \<Rightarrow> string list \<Rightarrow> dimension_values \<Rightarrow> dimension_values" where
  "assign ks vs m = foldl (\<lambda>m (k, v). fmupd k v m) m (zip ks vs)"

lemma extendDimensionSets_axis:
  "extendDimensionSets sets p =
     (case partition_axis p of None \<Rightarrow> sets
      | Some (k, vs) \<Rightarrow> concat (map (\<lambda>m. map (\<lambda>v. fmupd k v m) vs) sets))"
  by (auto simp: extendDimensionSets_def partition_axis_def split: option.splits)

lemma concat_map_concat: "concat (map f (concat xss)) = concat (map (\<lambda>xs. concat (map f xs)) xss)"
  by (induction xss) auto

lemma concat_concat: "concat (concat xsss) = concat (map concat xsss)"
  by (induction xsss) auto

lemma extend_fold:
  "foldl extendDimensionSets sets ps =
     concat (map (\<lambda>m. map (\<lambda>vs. assign (map fst (List.map_filter partition_axis ps)) vs m)
                        (product_lists (map snd (List.map_filter partition_axis ps)))) sets)"
proof (induction ps arbitrary: sets)
  case Nil
  show ?case by (simp add: assign_def map_filter_simps)
next
  case (Cons p ps)
  show ?case
  proof (cases "partition_axis p")
    case None
    then show ?thesis using Cons by (simp add: extendDimensionSets_axis map_filter_simps)
  next
    case (Some axis)
    obtain k vs where axis: "axis = (k, vs)" by (cases axis)
    have "foldl extendDimensionSets sets (p # ps) =
        foldl extendDimensionSets (concat (map (\<lambda>m. map (\<lambda>v. fmupd k v m) vs) sets)) ps"
      by (simp add: extendDimensionSets_axis [of sets p] Some axis)
    then show ?thesis
      by (simp add: Cons.IH Some axis map_filter_simps assign_def map_concat concat_map_concat concat_concat comp_def)
  qed
qed

lemma dimension_sets_product:
  "extractDimensionValueSets request =
     map (\<lambda>vs. assign (map fst (dimension_axes request)) vs fmempty)
       (product_lists (map snd (dimension_axes request)))"
  by (auto simp: extractDimensionValueSets_def dimension_axes_def extend_fold assign_def split: option.splits)

text \<open>
  C19: the dimension value sets of a request are the cross product of the values of its axes, in
  lexicographic order with the last axis varying fastest; where a column occurs twice the later
  value wins.  A request without axes has the single empty set.
\<close>

theorem extractDimensionValueSets_product:
  "extractDimensionValueSets request =
     map (\<lambda>vs. assign (map fst (dimension_axes request)) vs fmempty)
       (product_lists (map snd (dimension_axes request)))"
  by (rule dimension_sets_product)

lemma length_extractDimensionValueSets:
  "length (extractDimensionValueSets request) = prod_list (map length (map snd (dimension_axes request)))"
  unfolding dimension_sets_product length_map length_product_lists
  by (simp add: prod_list.eq_foldr)

lemma partition_axis_nonempty: "partition_axis p = Some (k, vs) \<Longrightarrow> vs \<noteq> []"
  by (auto simp: partition_axis_def split: option.splits if_splits)

lemma axes_nonempty: "(k, vs) \<in> set (dimension_axes request) \<Longrightarrow> vs \<noteq> []"
  by (auto simp: dimension_axes_def List.map_filter_def dest: partition_axis_nonempty split: option.splits)

lemma extractDimensionValueSets_not_Nil: "extractDimensionValueSets request \<noteq> []"
proof -
  have "0 \<notin> set (map length (map snd (dimension_axes request)))" using axes_nonempty by fastforce
  then have "prod_list (map length (map snd (dimension_axes request))) \<noteq> 0"
    by (simp only: prod_list_zero_iff not_False_eq_True)
  then show ?thesis using length_extractDimensionValueSets by (metis list.size(3))
qed

subsection \<open>GenerateEpochs on usable requests\<close>

lemma generateLoop_slices:
  assumes "\<And>dv. sliceTimeRange T r g dv = Some (Ok (sliceEpochs T r g dv n))"
  shows "generateLoop T r g sets acc = Some (Ok (acc @ concat (map (\<lambda>dv. sliceEpochs T r g dv n) sets)))"
  by (induction sets arbitrary: acc) (simp_all add: assms)

lemma generateLoop_fails:
  assumes "\<And>dv. sliceTimeRange T r g dv = res" and "\<And>es. res \<noteq> Some (Ok es)" and "sets \<noteq> []"
  shows "generateLoop T r g sets acc =
     (case res of None \<Rightarrow> None | Some (Err e) \<Rightarrow> Some (Err (''failed to slice time range: '' @ e)) | Some p \<Rightarrow> Some p)"
  using assms by (cases sets) (auto split: option.splits outcome.splits)

text \<open>
  C20: on a request with a complete time range, a usable granularity and a start before its end,
  \<open>GenerateEpochs\<close> returns, for every dimension value set in turn, the slices of the time range
  with these dimension values: the same number of slices for each, and at least one.
\<close>

theorem GenerateEpochs_cross_product:
  assumes "extractTimeRange request = Ok r" and "determineGranularity request = Some g" and "usable g"
    and "AsTime T (trf_StartInclusive r) < AsTime T (trf_EndExclusive r)"
  shows "\<exists>n>0. (\<forall>dv. sliceTimeRange T r g dv = Some (Ok (sliceEpochs T r g dv n)))
    \<and> GenerateEpochs T request =
        Some (Ok (concat (map (\<lambda>dv. sliceEpochs T r g dv n) (extractDimensionValueSets request))))"
proof -
  obtain n where n: "n > 0" "\<forall>i<n. sliceBoundary T r g i < AsTime T (trf_EndExclusive r)"
      "AsTime T (trf_EndExclusive r) \<le> sliceBoundary T r g n"
    using sliceTimeRange_slices [OF assms(3,4)] by blast
  have "sliceTimeRange T r g dv = Some (Ok (sliceEpochs T r g dv n))" for dv
    by (rule sliceTimeRange_count [OF assms(3,4) n])
  with n(1) assms(1,2) show ?thesis
    by (intro exI [of _ n]) (auto simp: GenerateEpochs_def generateLoop_slices)
qed

text \<open>An example request: three and a bit days of October 2023, for two regions.\<close>

definition oct_request :: "EpochGranularity option \<Rightarrow> AdmitDatasetRequest" where
  "oct_request g =
     \<lparr>ar_TenantId = ''acme'', ar_DatasetId = ''clicks'',
      ar_Source = Some \<lparr>ds_Catalog = None, ds_Database = ''db'', ds_Table = ''t'',
        ds_Partition = Some \<lparr>
          p_TimePartition = Some \<lparr>tp_Column = None, tp_Filter = Some oct_range\<rparr>,
          p_DimensionPartitions =
            [\<lparr>dp_Column = Some \<lparr>pc_Name = ''region'', pc_Type = COLUMN_STRING, pc_SourceGranularity = None\<rparr>,
              dp_Values = Some \<lparr>pv_Values = [''us'', ''eu'']\<rparr>\<rparr>]\<rparr>,
        ds_Version = None\<rparr>,
      ar_EpochGranularity = g\<rparr>"

lemma oct_request_range: "extractTimeRange (oct_request g) = Ok oct_range"
  by (simp add: oct_request_def extractTimeRange_def oct_range_def)

lemma oct_request_granularity: "determineGranularity (oct_request None) = Some daily"
    "determineGranularity (oct_request (Some g)) = Some g"
  by (simp_all add: oct_request_def determineGranularity_def)

lemma oct_request_dimensions:
  "extractDimensionValueSets (oct_request g) =
     [fmupd ''region'' ''us'' fmempty, fmupd ''region'' ''eu'' fmempty]"
  by (simp add: oct_request_def extractDimensionValueSets_def extendDimensionSets_def)

theorem GenerateEpochs_cross_product_witness:
  "GenerateEpochs unix_codec (oct_request None) =
     Some (Ok (sliceEpochs unix_codec oct_range daily (fmupd ''region'' ''us'' fmempty) 4
             @ sliceEpochs unix_codec oct_range daily (fmupd ''region'' ''eu'' fmempty) 4))"
proof -
  have "AsTime unix_codec (trf_StartInclusive oct_range) < AsTime unix_codec (trf_EndExclusive oct_range)"
    by (simp add: oct_range_ends)
  from GenerateEpochs_cross_product [OF oct_request_range oct_request_granularity(1) daily.usable this]
  show ?thesis
    by (auto simp: oct_request_dimensions oct_range_slices)
qed

subsection \<open>Where GenerateEpochs fails\<close>

lemma generateLoop_Ok:
  assumes "\<And>dv. \<exists>es. sliceTimeRange T r g dv = Some (Ok es)"
  shows "\<exists>es. generateLoop T r g sets acc = Some (Ok es)"
proof (induction sets arbitrary: acc)
  case (Cons dv sets)
  obtain es where "sliceTimeRange T r g dv = Some (Ok es)" using assms by blast
  with Cons show ?case by simp
qed simp

lemma GenerateEpochs_Ok_slices:
  assumes "GenerateEpochs T request = Some (Ok es)"
  obtains r g dv es' where "extractTimeRange request = Ok r" "determineGranularity request = Some g"
    "sliceTimeRange T r g dv = Some (Ok es')"
proof -
  from assms obtain r g where r: "extractTimeRange request = Ok r" "determineGranularity request = Some g"
    and loop: "generateLoop T r g (extractDimensionValueSets request) [] = Some (Ok es)"
    by (auto simp: GenerateEpochs_def split: outcome.splits option.splits)
  then obtain dv es' where "sliceTimeRange T r g dv = Some (Ok es')"
    using extractDimensionValueSets_not_Nil [of request]
    by (cases "extractDimensionValueSets request") (auto split: option.splits outcome.splits)
  with that r show thesis by blast
qed

lemma sliceTimeRange_Ok:
  assumes "representable g" and "0 < sint (eg_Value g) \<or> goes_back g"
    and "valid_time (AsTime T (trf_StartInclusive r))" and "valid_time (AsTime T (trf_EndExclusive r))"
    and "AsTime T (trf_StartInclusive r) < AsTime T (trf_EndExclusive r)"
  shows "\<exists>es. sliceTimeRange T r g dv = Some (Ok es)"
proof (cases "goes_back g")
  case True
  then show ?thesis using sliceTimeRange_back assms(3-5) by blast
next
  case False
  with assms(1,2) have "usable g" by (simp add: usable_def)
  from sliceTimeRange_slices [OF this assms(5), of dv] show ?thesis by blast
qed

text \<open>
  C21: which requests give epochs.  Take a request whose time range, if complete, is within the years
  1 to 9999, and whose granularity, if it can be determined, has a known unit, fits a duration and
  is not a negative number of months.  \<open>GenerateEpochs\<close> returns a list of epochs exactly when the
  time range is complete, the granularity can be determined, the start is before the end, and the
  granularity is positive or a negative number of days or weeks.  The latter is not rejected: the
  slices go back in time until the 64-bit clock wraps around.  Memory is taken to suffice.
\<close>

theorem GenerateEpochs_Ok_iff:
  assumes "\<And>g. determineGranularity request = Some g \<Longrightarrow>
      representable g \<and> \<not> (eg_Unit g = UNIT_MONTH \<and> sint (eg_Value g) < 0)"
    and "\<And>r. extractTimeRange request = Ok r \<Longrightarrow>
      valid_time (AsTime T (trf_StartInclusive r)) \<and> valid_time (AsTime T (trf_EndExclusive r))"
  shows "(\<exists>es. GenerateEpochs T request = Some (Ok es)) \<longleftrightarrow>
    (\<exists>r g. extractTimeRange request = Ok r \<and> determineGranularity request = Some g
      \<and> AsTime T (trf_StartInclusive r) < AsTime T (trf_EndExclusive r)
      \<and> (0 < sint (eg_Value g) \<or> sint (eg_Value g) < 0 \<and> (eg_Unit g = UNIT_DAY \<or> eg_Unit g = UNIT_WEEK)))"
    (is "?ok \<longleftrightarrow> ?cond")
proof
  assume ?ok
  then obtain r g dv es where r: "extractTimeRange request = Ok r" and g: "determineGranularity request = Some g"
    and slices: "sliceTimeRange T r g dv = Some (Ok es)"
    using GenerateEpochs_Ok_slices by metis
  have less: "AsTime T (trf_StartInclusive r) < AsTime T (trf_EndExclusive r)"
    using slices by (rule sliceTimeRange_Ok_nonempty_range)
  have "\<not> stands_still g" using sliceTimeRange_diverges [OF _ _ _ less] slices assms(1) [OF g] assms(2) [OF r] by fastforce
  then have "0 < sint (eg_Value g) \<or> sint (eg_Value g) < 0 \<and> (eg_Unit g = UNIT_DAY \<or> eg_Unit g = UNIT_WEEK)"
    using assms(1) [OF g] by (cases "eg_Unit g") (auto simp: stands_still_def representable_def)
  with r g less show ?cond by blast
next
  assume ?cond
  then obtain r g where r: "extractTimeRange request = Ok r" and g: "determineGranularity request = Some g"
    and less: "AsTime T (trf_StartInclusive r) < AsTime T (trf_EndExclusive r)"
    and forward: "0 < sint (eg_Value g) \<or> goes_back g" unfolding goes_back_def by blast
  have "\<exists>es. sliceTimeRange T r g dv = Some (Ok es)" for dv
    using sliceTimeRange_Ok [OF _ forward _ _ less] assms(1) [OF g] assms(2) [OF r] by blast
  from generateLoop_Ok [OF this] show ?ok using r g by (simp add: GenerateEpochs_def)
qed

lemma oct_range_valid:
  "valid_time (AsTime unix_codec (trf_StartInclusive oct_range))" "valid_time (AsTime unix_codec (trf_EndExclusive oct_range))"
  by (simp_all add: oct_range_ends valid_time_def day_start_def year_start_def)

theorem GenerateEpochs_Ok_iff_witness:
  "(\<exists>es. GenerateEpochs unix_codec (oct_request (Some daily)) = Some (Ok es))
   \<and> (\<exists>es. GenerateEpochs unix_codec (oct_request (Some \<lparr>eg_Value = - 7, eg_Unit = UNIT_DAY\<rparr>)) = Some (Ok es))
   \<and> (\<nexists>es. GenerateEpochs unix_codec (oct_request (Some \<lparr>eg_Value = - 7, eg_Unit = UNIT_HOUR\<rparr>)) = Some (Ok es))"
  using GenerateEpochs_Ok_iff [of "oct_request (Some daily)" unix_codec]
    GenerateEpochs_Ok_iff [of "oct_request (Some \<lparr>eg_Value = - 7, eg_Unit = UNIT_DAY\<rparr>)" unix_codec]
    GenerateEpochs_Ok_iff [of "oct_request (Some \<lparr>eg_Value = - 7, eg_Unit = UNIT_HOUR\<rparr>)" unix_codec]
    oct_range_valid
  by (simp add: oct_request_range oct_request_granularity oct_range_ends representable_def)

text \<open>
  Which requests reach the slicing with a complete time range.  A missing source, partition or
  time partition and a missing end of the range are reported as errors, while a time partition
  without a filter makes \<open>extractTimeRange\<close> dereference a nil pointer.
\<close>

lemma GenerateEpochs_incomplete_request:
  "case Option.bind (Option.bind (ar_Source request) ds_Partition) p_TimePartition of
     None \<Rightarrow> GenerateEpochs T request =
       Some (Err ''failed to extract time range: time partition information is incomplete'')
   | Some tp \<Rightarrow>
     (case tp_Filter tp of
        None \<Rightarrow> GenerateEpochs T request = Some (Panic nil_deref)
      | Some r \<Rightarrow>
          if trf_StartInclusive r = None \<or> trf_EndExclusive r = None
          then GenerateEpochs T request =
            Some (Err ''failed to extract time range: start_inclusive and end_exclusive are required'')
          else extractTimeRange request = Ok r)"
  by (cases "ar_Source request"; cases "Option.bind (ar_Source request) ds_Partition")
     (auto simp: GenerateEpochs_def extractTimeRange_def split: option.splits)

text \<open>
  C22: a request that passes every check but asks for a granularity of zero, or for a negative number
  of hours that fits a duration, makes \<open>GenerateEpochs\<close> run forever if it starts in the years 1 to 9999
  before its end; one with an empty range is rejected with an error.
\<close>

theorem GenerateEpochs_diverges:
  assumes "extractTimeRange request = Ok r" and "determineGranularity request = Some g" and "representable g"
    and "sint (eg_Value g) = 0 \<or> sint (eg_Value g) < 0 \<and> eg_Unit g = UNIT_HOUR"
    and "valid_time (AsTime T (trf_StartInclusive r))"
  shows "GenerateEpochs T request =
    (if AsTime T (trf_StartInclusive r) < AsTime T (trf_EndExclusive r) then None
     else Some (Err ''failed to slice time range: invalid time range: start must be before end''))"
proof (cases "AsTime T (trf_StartInclusive r) < AsTime T (trf_EndExclusive r)")
  case True
  have "stands_still g" using assms(4) by (simp add: stands_still_def)
  then have "sliceTimeRange T r g dv = None" for dv by (rule sliceTimeRange_diverges [OF assms(3) _ assms(5) True])
  with True assms(1,2) show ?thesis
    by (simp add: GenerateEpochs_def generateLoop_fails [of T r g None] extractDimensionValueSets_not_Nil)
next
  case False
  have "sliceTimeRange T r g dv = Some (Err ''invalid time range: start must be before end'')" for dv
    using False by (auto simp: sliceTimeRange_def Let_def)
  with False assms(1,2) show ?thesis
    by (simp add: GenerateEpochs_def extractDimensionValueSets_not_Nil
        generateLoop_fails [of T r g "Some (Err ''invalid time range: start must be before end'')"])
qed

theorem GenerateEpochs_diverges_witness:
  "GenerateEpochs unix_codec (oct_request (Some \<lparr>eg_Value = 0, eg_Unit = UNIT_DAY\<rparr>)) = None
   \<and> GenerateEpochs unix_codec (oct_request (Some \<lparr>eg_Value = - 1, eg_Unit = UNIT_HOUR\<rparr>)) = None"
  using GenerateEpochs_diverges [OF oct_request_range
      oct_request_granularity(2) [of "\<lparr>eg_Value = 0, eg_Unit = UNIT_DAY\<rparr>"], of unix_codec]
    GenerateEpochs_diverges [OF oct_request_range
      oct_request_granularity(2) [of "\<lparr>eg_Value = - 1, eg_Unit = UNIT_HOUR\<rparr>"], of unix_codec] oct_range_valid
  by (simp add: representable_def oct_range_ends)

end
