(* ===== verification/Epoch_Identity.thy ===== *)
theory Epoch_Identity
  imports Epoch_Slicing
begin

text \<open>
  The identifiers \<open>generateEpochID\<close> gives to epochs: they tell the slices of one range apart, sort
  like the start times as long as these have thirteen digits of milliseconds, and do not tell all
  dimension values apart, because the hash input has no separators.
\<close>

subsection \<open>Decimal strings in order\<close>

lemma append_less_same_length:
  fixes xs ys :: string
  assumes "length xs = length ys" and "xs < ys"
  shows "xs @ us < ys @ vs"
  using assms by (induction xs ys rule: list_induct2) auto

lemma length_string_of_nat: "10 ^ k \<le> n \<Longrightarrow> n < 10 ^ Suc k \<Longrightarrow> length (string_of_nat n) = Suc k"
proof (induction k arbitrary: n)
  case 0
  then show ?case by (simp add: string_of_nat.simps [of n])
next
  case (Suc k)
  then have "10 ^ k \<le> n div 10" "n div 10 < 10 ^ Suc k" "\<not> n < 10"
    by (auto simp: less_mult_imp_div_less div_le_mono dest: div_le_mono [of _ _ 10])
  then show ?case using Suc.IH [of "n div 10"] by (simp add: string_of_nat.simps [of n])
qed

lemma string_of_nat_mono:
  "length (string_of_nat m) = length (string_of_nat n) \<Longrightarrow> m < n \<Longrightarrow> string_of_nat m < string_of_nat n"
proof (induction m arbitrary: n rule: string_of_nat.induct)
  case (1 m)
  show ?case
  proof (cases "m < 10 \<or> n < 10")
    case True
    with "1.prems" show ?thesis
      by (auto simp: string_of_nat.simps [of m] string_of_nat.simps [of n] digit_char_less split: if_splits)
  next
    case False
    then have eq: "string_of_nat m = string_of_nat (m div 10) @ [digit_char (m mod 10)]"
      "string_of_nat n = string_of_nat (n div 10) @ [digit_char (n mod 10)]"
      by (simp_all add: string_of_nat.simps [of m] string_of_nat.simps [of n])
    have "m div 10 \<le> n div 10" using "1.prems"(2) by (intro div_le_mono) simp
    moreover have "m mod 10 < n mod 10" if "m div 10 = n div 10"
      using "1.prems"(2) that by (metis div_mult_mod_eq nat_add_left_cancel_less)
    ultimately have "m div 10 < n div 10 \<or> m div 10 = n div 10 \<and> m mod 10 < n mod 10"
      by (auto simp: le_less)
    then show ?thesis
    proof
      assume "m div 10 < n div 10"
      with "1.IH" [of "n div 10"] "1.prems"(1) False show ?thesis
        unfolding eq by (intro append_less_same_length) (auto simp: eq)
    next
      assume "m div 10 = n div 10 \<and> m mod 10 < n mod 10"
      then show ?thesis unfolding eq by (simp add: digit_char_less list_less_def lexord_append_leftI)
    qed
  qed
qed

subsection \<open>Identifiers of epochs\<close>

lemma generateEpochID_split:
  "generateEpochID t dv = string_of_int (time_UnixMilli t) @ CHR ''_'' #
     hex_EncodeToString (take 3 (sha256 (epochHashInput (time_UnixMilli t) dv)))"
  by (simp add: generateEpochID_def Let_def)

lemma generateEpochID_millis:
  assumes "generateEpochID t dv = generateEpochID t' dv'"
  shows "time_UnixMilli t = time_UnixMilli t'"
  using append_sep_inj [OF string_of_int_no_underscore string_of_int_no_underscore
      assms [unfolded generateEpochID_split]] by simp

lemma aligned_hour: "aligned_to u t \<Longrightarrow> \<exists>k. t = k * hour_ns"
proof -
  have "\<exists>k. day_start n = k * hour_ns" for n
    by (rule exI [of _ "(n - unix_epoch_day) * 24"]) (simp add: day_start_def)
  then show "aligned_to u t \<Longrightarrow> \<exists>k. t = k * hour_ns"
    by (cases u) (auto simp: aligned_boundary)
qed

lemma aligned_UnixMilli_inj:
  assumes "aligned_to u t" and "aligned_to u t'" and "time_UnixMilli t = time_UnixMilli t'"
  shows "t = t'"
proof -
  obtain k k' where "t = k * hour_ns" "t' = k' * hour_ns"
    using assms(1,2) aligned_hour by blast
  with assms(3) time_UnixMilli_hours show ?thesis by metis
qed

text \<open>
  C23: the epochs \<open>sliceTimeRange\<close> returns have pairwise different identifiers, whatever the hash
  suffixes are.
\<close>

theorem sliceTimeRange_distinct_ids:
  assumes "usable g" and "sliceTimeRange T r g dv = Some (Ok es)"
  shows "distinct (map ei_EpochId es)"
proof -
  obtain n where es: "es = sliceEpochs T r g dv n"
    using sliceTimeRange_slices [OF assms(1) sliceTimeRange_Ok_nonempty_range [OF assms(2)], of dv] assms(2)
    by auto
  have less: "sliceBoundary T r g i < sliceBoundary T r g j" if "i < j" for i j
    using that by (induction j) (auto simp: less_Suc_eq intro: sliceBoundary_step [OF assms(1)] less_trans)
  have "inj_on (\<lambda>i. generateEpochID (sliceBoundary T r g i) dv) {0..<n}"
  proof (rule inj_onI)
    fix i j
    assume "generateEpochID (sliceBoundary T r g i) dv = generateEpochID (sliceBoundary T r g j) dv"
    then have "sliceBoundary T r g i = sliceBoundary T r g j"
      by (intro aligned_UnixMilli_inj [OF sliceBoundary_aligned [OF assms(1)] sliceBoundary_aligned [OF assms(1)]]
          generateEpochID_millis)
    then show "i = j" using less [of i j] less [of j i] by (cases i j rule: linorder_cases) auto
  qed
  then show ?thesis by (simp add: es sliceEpochs_def newEpoch_def distinct_map comp_def)
qed

theorem sliceTimeRange_distinct_ids_witness:
  "distinct (map ei_EpochId (sliceEpochs unix_codec oct_range daily fmempty 4))"
  by (rule sliceTimeRange_distinct_ids [OF daily.usable oct_range_slices])

text \<open>
  Epoch identifiers sort like the start times of their epochs (the schema calls them
  time-sortable), for start times whose millisecond count has thirteen digits: from September 2001
  to November 2286.  Nothing is assumed about the dimension values.
\<close>

lemma generateEpochID_sortable:
  assumes "10 ^ 12 \<le> time_UnixMilli t" and "time_UnixMilli t < time_UnixMilli t'"
    and "time_UnixMilli t' < 10 ^ 13"
  shows "generateEpochID t dv < generateEpochID t' dv'"
proof -
  have len: "length (string_of_nat (nat m)) = Suc 12" if "10 ^ 12 \<le> m" "m < 10 ^ 13" for m :: int
    using that by (intro length_string_of_nat) auto
  have "string_of_nat (nat (time_UnixMilli t)) < string_of_nat (nat (time_UnixMilli t'))"
    using assms by (intro string_of_nat_mono) (simp_all add: len)
  with assms show ?thesis
    unfolding generateEpochID_split by (intro append_less_same_length) (simp_all add: string_of_int_def len)
qed

lemma generateEpochID_sortable_witness:
  "generateEpochID 1698192000000000000 (fmupd ''region'' ''us'' fmempty)
     < generateEpochID 1698278400000000000 (fmupd ''region'' ''eu'' fmempty)"
  by (rule generateEpochID_sortable) (simp_all add: time_UnixMilli_exact)

text \<open>Outside these years the order is lost: nine digits of a later year sort before ten of an earlier.\<close>

lemma generateEpochID_not_sortable:
  "generateEpochID 1000000000000000000 dv < generateEpochID 999999999000000000 dv'"
proof -
  have "string_of_nat 1000000000000 = map digit_char [1, 0, 0, 0, 0, 0, 0, 0, 0, 0, 0, 0, 0]"
    "string_of_nat 999999999000 = map digit_char [9, 9, 9, 9, 9, 9, 9, 9, 9, 0, 0, 0]"
    by (simp_all add: string_of_nat.simps)
  then show ?thesis
    by (simp add: generateEpochID_split time_UnixMilli_exact string_of_int_def digit_char_less)
qed

text \<open>
  C24: the identifier does not determine the dimension values.  The key-value pairs are written to
  the hasher with no separator between them, so a value that spells out the next pair gives the
  same identifier at every start time.
\<close>

theorem generateEpochID_collision:
  "generateEpochID t (fmupd ''a'' ''1b=2'' fmempty) =
     generateEpochID t (fmupd ''a'' ''1'' (fmupd ''b'' ''2'' fmempty))
   \<and> fmupd ''a'' ''1b=2'' fmempty \<noteq> fmupd ''a'' ''1'' (fmupd ''b'' ''2'' fmempty)"
proof -
  have "sorted_keys (fmupd ''a'' x fmempty) = [''a'']"
    "sorted_keys (fmupd ''a'' x (fmupd ''b'' y fmempty)) = [''a'', ''b'']" for x y
    by (simp_all add: sorted_keys_def sorted_list_of_fset.rep_eq)
  then have "generateEpochID t (fmupd ''a'' ''1b=2'' fmempty) =
      generateEpochID t (fmupd ''a'' ''1'' (fmupd ''b'' ''2'' fmempty))"
    by (simp add: generateEpochID_split epochHashInput_def)
  moreover have "fmlookup (fmupd ''a'' ''1b=2'' fmempty) ''a'' \<noteq>
      fmlookup (fmupd ''a'' ''1'' (fmupd ''b'' ''2'' fmempty)) ''a''"
    by simp
  ultimately show ?thesis by metis
qed

end
