(* ===== verification/Etcd_Client.thy ===== *)
theory Etcd_Client
  imports Leibrix_Prelude
begin

text \<open>
  The etcd client the control plane stores its state with.  The client and the service behind it
  are not part of the repository: they are the parameter \<open>cli\<close>, a record of the operations the
  code calls, acting on a state \<open>'s\<close> of the service.  The locale \<open>etcd_service\<close> states what etcd
  documents: every request takes effect at one moment between its call and its return, other
  clients may write before and after that moment, and a key that still has the modification
  revision it had before has not been written since.  \<open>etcd_alone\<close> is a service no other client
  writes to.  \<open>log_client\<close> and \<open>busy_client\<close> are two concrete services, without and with other
  writers, that keep these laws.
\<close>

subsection \<open>Requests and responses\<close>

record KeyValue =
  kv_Key :: string
  kv_Value :: string
  kv_ModRevision :: int

datatype etcd_cmp = CompareModRevision string int

datatype etcd_op = OpPut string string | OpGet string

type_synonym kv_store = "string \<Rightarrow> KeyValue option"

record 's etcd_client =
  cli_Get :: "string \<Rightarrow> 's \<Rightarrow> (go_error + KeyValue list) \<times> 's"
  cli_Put :: "string \<Rightarrow> string \<Rightarrow> 's \<Rightarrow> (go_error + int) \<times> 's"
  cli_Txn :: "etcd_cmp list \<Rightarrow> etcd_op list \<Rightarrow> etcd_op list \<Rightarrow> 's \<Rightarrow> (go_error + bool) \<times> 's"

definition found :: "KeyValue option \<Rightarrow> KeyValue list" where
  "found kv = (case kv of None \<Rightarrow> [] | Some x \<Rightarrow> [x])"

lemma found_simps [simp]: "found None = []" "found (Some x) = [x]"
  by (simp_all add: found_def)

text \<open>The modification revision of a key that does not exist is 0.\<close>

fun cmp_holds :: "kv_store \<Rightarrow> etcd_cmp \<Rightarrow> bool" where
  "cmp_holds m (CompareModRevision k r) = ((case m k of None \<Rightarrow> 0 | Some kv \<Rightarrow> kv_ModRevision kv) = r)"

fun exec_op :: "int \<Rightarrow> etcd_op \<Rightarrow> kv_store \<Rightarrow> kv_store" where
  "exec_op mrev (OpPut k v) m = m(k \<mapsto> \<lparr>kv_Key = k, kv_Value = v, kv_ModRevision = mrev\<rparr>)"
| "exec_op mrev (OpGet k) m = m"

definition exec_ops :: "int \<Rightarrow> etcd_op list \<Rightarrow> kv_store \<Rightarrow> kv_store" where
  "exec_ops mrev ops m = fold (exec_op mrev) ops m"

lemma exec_ops_simps [simp]:
  "exec_ops mrev [] m = m" "exec_ops mrev (op # ops) m = exec_ops mrev ops (exec_op mrev op m)"
  by (simp_all add: exec_ops_def)

subsection \<open>The contract\<close>

locale etcd_service =
  fixes cli :: "'s etcd_client"
    and store :: "'s \<Rightarrow> kv_store"
    and env :: "'s \<Rightarrow> 's \<Rightarrow> bool"
  assumes env_refl: "env s s"
    and env_trans: "env s s' \<Longrightarrow> env s' s'' \<Longrightarrow> env s s''"
    and env_revision: "env s s' \<Longrightarrow> store s k = Some kv \<Longrightarrow> store s' k = Some kv' \<Longrightarrow>
          kv_ModRevision kv' = kv_ModRevision kv \<Longrightarrow> kv' = kv"
    and revision_positive: "store s k = Some kv \<Longrightarrow> kv_ModRevision kv \<noteq> 0"
    and Get_Ok: "cli_Get cli k s = (Inr kvs, s') \<Longrightarrow>
          \<exists>s1. env s s1 \<and> kvs = found (store s1 k) \<and> env s1 s'"
    and Get_Err: "cli_Get cli k s = (Inl e, s') \<Longrightarrow> env s s'"
    and Put_Ok: "cli_Put cli k v s = (Inr mrev, s') \<Longrightarrow>
          \<exists>s1 s2. env s s1 \<and> store s2 = exec_ops mrev [OpPut k v] (store s1) \<and> env s2 s'"
    and Put_Err: "cli_Put cli k v s = (Inl e, s') \<Longrightarrow>
          env s s' \<or> (\<exists>s1 s2 mrev. env s s1 \<and> store s2 = exec_ops mrev [OpPut k v] (store s1) \<and> env s2 s')"
    and Txn_Ok: "cli_Txn cli cs ts es s = (Inr ok, s') \<Longrightarrow>
          \<exists>s1 s2 mrev. env s s1 \<and> ok = list_all (cmp_holds (store s1)) cs
            \<and> store s2 = exec_ops mrev (if ok then ts else es) (store s1) \<and> env s2 s'"
    and Txn_Err: "cli_Txn cli cs ts es s = (Inl e, s') \<Longrightarrow>
          env s s' \<or> (\<exists>s1 s2 mrev. env s s1 \<and> list_all (cmp_holds (store s1)) cs
            \<and> store s2 = exec_ops mrev ts (store s1) \<and> env s2 s')"

locale etcd_alone = etcd_service +
  assumes quiet: "env s s' \<Longrightarrow> store s' = store s"
begin

lemma Get_alone: "cli_Get cli k s = (r, s') \<Longrightarrow> store s' = store s \<and> (\<forall>kvs. r = Inr kvs \<longrightarrow> kvs = found (store s k))"
  by (cases r) (auto dest!: Get_Err Get_Ok quiet)

lemma Put_alone: "cli_Put cli k v s = (Inr mrev, s') \<Longrightarrow> store s' = exec_ops mrev [OpPut k v] (store s)"
  by (auto dest!: Put_Ok quiet)

lemma Put_frame: "cli_Put cli k v s = (r, s') \<Longrightarrow> k' \<noteq> k \<Longrightarrow> store s' k' = store s k'"
  by (cases r) (auto dest!: Put_Err Put_Ok quiet)

lemma Txn_alone: "cli_Txn cli cs ts es s = (Inr ok, s') \<Longrightarrow>
    ok = list_all (cmp_holds (store s)) cs \<and> (\<exists>mrev. store s' = exec_ops mrev (if ok then ts else es) (store s))"
  by (auto dest!: Txn_Ok quiet)

lemma Txn_Err_alone: "cli_Txn cli cs ts es s = (Inl e, s') \<Longrightarrow>
    store s' = store s \<or> (\<exists>mrev. store s' = exec_ops mrev ts (store s))"
  by (auto dest!: Txn_Err quiet)

end

subsection \<open>A service as a log of revisions\<close>

text \<open>
  The history of the store, newest revision first; a revision is a batch of writes, in which the
  first entry for a key counts.  No key is deleted.
\<close>

type_synonym batch = "(string \<times> string) list"

fun log_store :: "batch list \<Rightarrow> kv_store" where
  "log_store [] k = None"
| "log_store (b # l) k =
     (case map_of b k of
        None \<Rightarrow> log_store l k
      | Some v \<Rightarrow> Some \<lparr>kv_Key = k, kv_Value = v, kv_ModRevision = 1 + int (length l)\<rparr>)"

definition puts_of :: "etcd_op list \<Rightarrow> batch" where
  "puts_of ops = fold (\<lambda>op b. case op of OpPut k v \<Rightarrow> (k, v) # b | OpGet k \<Rightarrow> b) ops []"

definition log_exec :: "etcd_op list \<Rightarrow> batch list \<Rightarrow> batch list" where
  "log_exec ops l = puts_of ops # l"

definition log_client :: "batch list etcd_client" where
  "log_client =
     \<lparr>cli_Get = \<lambda>k l. (Inr (found (log_store l k)), l),
      cli_Put = \<lambda>k v l. (Inr (1 + int (length l)), log_exec [OpPut k v] l),
      cli_Txn = \<lambda>cs ts es l. let ok = list_all (cmp_holds (log_store l)) cs
                 in (Inr ok, log_exec (if ok then ts else es) l)\<rparr>"

lemma log_store_revision: "log_store l k = Some kv \<Longrightarrow> 0 < kv_ModRevision kv \<and> kv_ModRevision kv \<le> int (length l)"
  by (induction l) (auto split: option.splits)

lemma log_store_puts:
  "log_store (fold (\<lambda>op b. case op of OpPut k v \<Rightarrow> (k, v) # b | OpGet k \<Rightarrow> b) ops b # l) =
     exec_ops (1 + int (length l)) ops (log_store (b # l))"
proof (induction ops arbitrary: b)
  case Nil
  show ?case by simp
next
  case (Cons op ops)
  show ?case
  proof (cases op)
    case (OpPut k v)
    have "log_store (((k, v) # b) # l) = exec_op (1 + int (length l)) (OpPut k v) (log_store (b # l))"
      by (rule ext) simp
    with Cons.IH [of "(k, v) # b"] show ?thesis
      by (simp only: OpPut fold_simps etcd_op.case exec_ops_simps)
  next
    case (OpGet k)
    with Cons.IH show ?thesis by (simp del: log_store.simps)
  qed
qed

lemma log_store_exec: "log_store (log_exec ops l) = exec_ops (1 + int (length l)) ops (log_store l)"
proof -
  have "log_store ([] # l) = log_store l" by (rule ext) simp
  then show ?thesis by (simp add: log_exec_def puts_of_def log_store_puts del: log_store.simps)
qed

interpretation log_etcd: etcd_alone log_client log_store "(=)"
proof
  fix l :: "batch list" and k kv assume "log_store l k = Some kv"
  then show "kv_ModRevision kv \<noteq> 0" using log_store_revision by fastforce
qed (auto simp: log_client_def log_store_exec Let_def)

text \<open>
  The same service with other writers: the state holds the batches they commit, and one group of
  them lands before each request.
\<close>

record busy =
  busy_log :: "batch list"
  busy_others :: "batch list list"

definition busy_arrive :: "busy \<Rightarrow> batch list" where
  "busy_arrive s = concat (take 1 (busy_others s)) @ busy_log s"

definition busy_lift :: "(batch list \<Rightarrow> 'r \<times> batch list) \<Rightarrow> busy \<Rightarrow> 'r \<times> busy" where
  "busy_lift f s = (case f (busy_arrive s) of (r, l) \<Rightarrow> (r, \<lparr>busy_log = l, busy_others = drop 1 (busy_others s)\<rparr>))"

definition busy_client :: "busy etcd_client" where
  "busy_client =
     \<lparr>cli_Get = \<lambda>k. busy_lift (cli_Get log_client k),
      cli_Put = \<lambda>k v. busy_lift (cli_Put log_client k v),
      cli_Txn = \<lambda>cs ts es. busy_lift (cli_Txn log_client cs ts es)\<rparr>"

definition busy_env :: "busy \<Rightarrow> busy \<Rightarrow> bool" where
  "busy_env s s' \<longleftrightarrow> (\<exists>bs. busy_log s' = bs @ busy_log s)"

lemma busy_envI: "busy_env s \<lparr>busy_log = busy_arrive s, busy_others = bs\<rparr>" "busy_log s' = busy_log s \<Longrightarrow> busy_env s s'"
  by (auto simp: busy_env_def busy_arrive_def)

lemma log_store_append_revision:
  "log_store l k = Some kv \<Longrightarrow> log_store (bs @ l) k = Some kv' \<Longrightarrow> kv_ModRevision kv' = kv_ModRevision kv \<Longrightarrow> kv' = kv"
proof (induction bs)
  case (Cons b bs)
  from log_store_revision [OF Cons.prems(1)] Cons show ?case
    by (auto split: option.splits)
qed simp

lemma log_store_append_kept: "log_store l k \<noteq> None \<Longrightarrow> log_store (bs @ l) k \<noteq> None"
  by (induction bs) (auto split: option.splits)

interpretation busy_etcd: etcd_service busy_client "\<lambda>s. log_store (busy_log s)" busy_env
proof
  fix s s' k kvs assume "cli_Get busy_client k s = (Inr kvs, s')"
  then show "\<exists>s1. busy_env s s1 \<and> kvs = found (log_store (busy_log s1) k) \<and> busy_env s1 s'"
    by (intro exI [of _ "\<lparr>busy_log = busy_arrive s, busy_others = []\<rparr>"])
       (auto simp: busy_client_def busy_lift_def log_client_def intro: busy_envI)
next
  fix s s' k v mrev assume "cli_Put busy_client k v s = (Inr mrev, s')"
  then show "\<exists>s1 s2. busy_env s s1 \<and> log_store (busy_log s2) = exec_ops mrev [OpPut k v] (log_store (busy_log s1)) \<and> busy_env s2 s'"
    by (intro exI [of _ "\<lparr>busy_log = busy_arrive s, busy_others = []\<rparr>"] exI [of _ s'])
       (auto simp: busy_client_def busy_lift_def log_client_def log_store_exec intro: busy_envI)
next
  fix s s' cs ts es ok assume "cli_Txn busy_client cs ts es s = (Inr ok, s')"
  then show "\<exists>s1 s2 mrev. busy_env s s1 \<and> ok = list_all (cmp_holds (log_store (busy_log s1))) cs
      \<and> log_store (busy_log s2) = exec_ops mrev (if ok then ts else es) (log_store (busy_log s1)) \<and> busy_env s2 s'"
    by (intro exI [of _ "\<lparr>busy_log = busy_arrive s, busy_others = []\<rparr>"] exI [of _ s'] exI [of _ "1 + int (length (busy_arrive s))"])
       (auto simp: busy_client_def busy_lift_def log_client_def log_store_exec Let_def intro: busy_envI)
next
  fix s s' k kv kv'
  assume "busy_env s s'" "log_store (busy_log s) k = Some kv" "log_store (busy_log s') k = Some kv'"
    "kv_ModRevision kv' = kv_ModRevision kv"
  then show "kv' = kv" by (auto simp: busy_env_def intro: log_store_append_revision)
next
  fix s k kv assume "log_store (busy_log s) k = Some kv"
  then show "kv_ModRevision kv \<noteq> 0" by (rule log_etcd.revision_positive)
qed (auto simp: busy_client_def busy_lift_def log_client_def busy_env_def Let_def)

end
