(* ===== verification/Proto_Serde.thy ===== *)
theory Proto_Serde
  imports Etcd_Client
begin

text \<open>
  \<open>internal/api/grpc/proto_serde.go\<close>: protobuf messages as values of etcd keys.  \<open>proto.Marshal\<close> and
  \<open>proto.Unmarshal\<close> are the parameter \<open>proto_codec\<close>, one for each message type; the locale
  \<open>message_codec\<close> states that what was marshalled is unmarshalled to the same message.
\<close>

text \<open>\<open>proto.Unmarshal\<close> resets its target, so that the target's old value is not an argument.\<close>

record 'm proto_codec =
  Marshal :: "'m \<Rightarrow> go_error + string"
  Unmarshal :: "string \<Rightarrow> go_error + 'm"

locale message_codec =
  fixes C :: "'m proto_codec"
  assumes Unmarshal_Marshal: "Marshal C m = Inr b \<Longrightarrow> Unmarshal C b = Inr m"

definition PutProtoMessage ::
  "'m proto_codec \<Rightarrow> 's etcd_client \<Rightarrow> string \<Rightarrow> 'm \<Rightarrow> 's \<Rightarrow> (go_error + int) \<times> 's" where
  "PutProtoMessage C cli key msg s =
     (case Marshal C msg of
        Inl err \<Rightarrow> (Inl err, s)
      | Inr data \<Rightarrow> cli_Put cli key data s)"

text \<open>The three results of the Go function: the message, the response if there is one, the error if there is one.\<close>

definition GetProtoMessage ::
  "'m proto_codec \<Rightarrow> 's etcd_client \<Rightarrow> string \<Rightarrow> 'm \<Rightarrow> 's
    \<Rightarrow> ('m \<times> KeyValue list option \<times> go_error option) \<times> 's" where
  "GetProtoMessage C cli key msg s =
     (case cli_Get cli key s of
        (Inl err, s') \<Rightarrow> ((msg, None, Some err), s')
      | (Inr kvs, s') \<Rightarrow>
        (case kvs of
           [] \<Rightarrow> ((msg, Some kvs, Some (''not found: '' @ key)), s')
         | kv # _ \<Rightarrow>
           (case Unmarshal C (kv_Value kv) of
              Inl err \<Rightarrow> ((msg, Some kvs, Some err), s')
            | Inr m \<Rightarrow> ((m, Some kvs, None), s'))))"

subsection \<open>Reading what was written\<close>

text \<open>The message a store holds under a key, if it holds one that decodes.\<close>

definition message_at :: "'m proto_codec \<Rightarrow> kv_store \<Rightarrow> string \<Rightarrow> 'm option" where
  "message_at C m key =
     (case m key of None \<Rightarrow> None
      | Some kv \<Rightarrow> (case Unmarshal C (kv_Value kv) of Inl e \<Rightarrow> None | Inr msg \<Rightarrow> Some msg))"

text \<open>A codec for finitely many messages, given by their encodings.\<close>

definition table_codec :: "('m \<times> string) list \<Rightarrow> 'm proto_codec" where
  "table_codec t =
     \<lparr>Marshal = \<lambda>m. (case map_of t m of None \<Rightarrow> Inl ''cannot marshal'' | Some b \<Rightarrow> Inr b),
      Unmarshal = \<lambda>b. (case map_of (map prod.swap t) b of None \<Rightarrow> Inl ''cannot parse'' | Some m \<Rightarrow> Inr m)\<rparr>"

lemma table_codec:
  assumes "distinct (map snd t)"
  shows "message_codec (table_codec t)"
proof
  fix m b assume "Marshal (table_codec t) m = Inr b"
  then have "(m, b) \<in> set t"
    by (auto simp: table_codec_def split: option.splits dest: map_of_SomeD)
  with assms have "map_of (map prod.swap t) b = Some m"
    by (intro map_of_is_SomeI) (auto simp: comp_def)
  then show "Unmarshal (table_codec t) b = Inr m" by (simp add: table_codec_def)
qed

context etcd_alone
begin

lemma GetProtoMessage_alone:
  assumes "GetProtoMessage C cli key msg s = ((m, rsp, err), s')"
  shows "store s' = store s" and "err = None \<Longrightarrow> message_at C (store s) key = Some m \<and> rsp = Some (found (store s key))"
    and "rsp = Some [] \<Longrightarrow> store s key = None"
  using assms
  by (auto simp: GetProtoMessage_def message_at_def found_def dest!: Get_alone
      split: prod.splits sum.splits list.splits option.splits)

lemma PutProtoMessage_alone:
  assumes "PutProtoMessage C cli key msg s = (Inr mrev, s')" and "message_codec C"
  shows "message_at C (store s') key = Some msg"
  using assms message_codec.Unmarshal_Marshal [OF assms(2)]
  by (auto simp: PutProtoMessage_def message_at_def dest!: Put_alone split: sum.splits)

lemma PutProtoMessage_frame:
  "PutProtoMessage C cli key msg s = (r, s') \<Longrightarrow> k \<noteq> key \<Longrightarrow> store s' k = store s k"
  by (auto simp: PutProtoMessage_def dest: Put_frame split: sum.splits)

end

end
