(* ===== verification/Leadership.thy ===== *)
theory Leadership
  imports Leibrix_Prelude
begin

text \<open>
  \<open>internal/api/grpc/leadership.go\<close>: the guard in front of every call that only the leader may
  serve, and the shape of what a gRPC handler returns.
\<close>

datatype grpc_code = Unavailable | FailedPrecondition | InvalidArgument | Internal | Canceled

datatype rpc_error = StatusError grpc_code string | PlainError go_error

text \<open>What a handler returns: a reply, an error for the caller, or a panic.\<close>

datatype 'a rpc = Reply 'a | Fail rpc_error | Crash string

text \<open>A \<open>LeadershipProvider\<close> at the moment of a call: what its two queries answer.\<close>

record LeadershipProvider =
  lp_IsLeader :: bool
  lp_LeaderName :: string

definition requireLeader :: "LeadershipProvider option \<Rightarrow> string \<Rightarrow> rpc_error option" where
  "requireLeader leadership nodeName =
     (case leadership of
        None \<Rightarrow> None
      | Some lp \<Rightarrow>
        if lp_IsLeader lp then None
        else let leaderName = lp_LeaderName lp
             in if leaderName = '''' then Some (StatusError Unavailable ''control plane leader is not ready yet'')
                else Some (StatusError FailedPrecondition
                  (''node '' @ nodeName @ '' is not the control plane leader; current leader is '' @ leaderName)))"

lemma requireLeader_simps [simp]:
  "requireLeader None nodeName = None"
  "lp_IsLeader lp \<Longrightarrow> requireLeader (Some lp) nodeName = None"
  by (simp_all add: requireLeader_def)

lemma requireLeader_None_iff:
  "requireLeader leadership nodeName = None \<longleftrightarrow> leadership = None \<or> (\<exists>lp. leadership = Some lp \<and> lp_IsLeader lp)"
  by (auto simp: requireLeader_def Let_def split: option.splits)

end
