(* ===== verification/Config.thy ===== *)
theory Config
  imports Leibrix_Prelude
begin

text \<open>
  \<open>internal/conf/config.go\<close> (the configuration records and \<open>LoadConfig\<close>) and the etcd keys and
  client settings of \<open>pkg/common/common_utils.go\<close>.  Opening a file and decoding YAML are
  parameters.
\<close>

subsection \<open>Configuration records\<close>

record NodeConfig =
  nc_NodeName :: string
  nc_HostName :: string
  nc_DataDir :: string
  nc_RPCPort :: int
  nc_ListenPort :: int
  nc_AdvertisePort :: int

record ClusterConfig =
  cc_ListenClientUrls :: "string list"
  cc_AdvertisePeerUrls :: "string list"
  cc_InitialCluster :: string
  cc_InitialClusterToken :: string
  cc_SnapshotCount :: "64 word"
  cc_HeartbeatMs :: "64 word"
  cc_ElectionMs :: "64 word"
  cc_LogLevel :: string

record LeibrixConfig =
  lc_Node :: NodeConfig
  lc_ClusterConfig :: ClusterConfig
  lc_FencingToken :: "64 word"

definition LoadConfig ::
  "(string \<Rightarrow> go_error + 'file) \<Rightarrow> ('file \<Rightarrow> go_error + LeibrixConfig) \<Rightarrow> string \<Rightarrow> go_error + LeibrixConfig" where
  "LoadConfig os_Open decode path =
     (if path = '''' then Inl ''config file path is empty''
      else case os_Open path of
             Inl err \<Rightarrow> Inl err
           | Inr yamlFile \<Rightarrow> decode yamlFile)"

text \<open>An example configuration.\<close>

definition example_config :: LeibrixConfig where
  "example_config =
     \<lparr>lc_Node = \<lparr>nc_NodeName = ''node1'', nc_HostName = ''localhost'', nc_DataDir = ''/tmp/leibrix'',
        nc_RPCPort = 7003, nc_ListenPort = 2380, nc_AdvertisePort = 2382\<rparr>,
      lc_ClusterConfig = \<lparr>cc_ListenClientUrls = [''http://localhost:2379''],
        cc_AdvertisePeerUrls = [''http://localhost:2380''], cc_InitialCluster = '''', cc_InitialClusterToken = '''',
        cc_SnapshotCount = 0, cc_HeartbeatMs = 100, cc_ElectionMs = 1000, cc_LogLevel = ''info''\<rparr>,
      lc_FencingToken = 0\<rparr>"

subsection \<open>Keys of the control plane's state in etcd\<close>

definition EtcdTenantQuotaKey :: "string \<Rightarrow> string" where
  "EtcdTenantQuotaKey tenantId = ''/leibrix/tenants/'' @ tenantId @ ''/quota''"

definition EtcdTenantDatasetEpochKey :: "string \<Rightarrow> string \<Rightarrow> string" where
  "EtcdTenantDatasetEpochKey tenantId dataSetId =
     ''/leibrix/tenants/'' @ tenantId @ ''/datasets/'' @ dataSetId"

text \<open>Durations are nanoseconds.\<close>

record clientv3_Config =
  cv_Endpoints :: "string list"
  cv_DialTimeout :: int
  cv_DialKeepAliveTime :: int
  cv_DialKeepAliveTimeout :: int
  cv_AutoSyncInterval :: int
  cv_MaxCallSendMsgSize :: int
  cv_MaxCallRecvMsgSize :: int

definition DefaultEtcdClientConfig :: "string list \<Rightarrow> clientv3_Config" where
  "DefaultEtcdClientConfig endpoint =
     \<lparr>cv_Endpoints = endpoint,
      cv_DialTimeout = 5 * 1000000000,
      cv_DialKeepAliveTime = 2 * 1000000000,
      cv_DialKeepAliveTimeout = 2 * 1000000000,
      cv_AutoSyncInterval = 30 * 1000000000,
      cv_MaxCallSendMsgSize = 16 * 1024 * 1024,
      cv_MaxCallRecvMsgSize = 16 * 1024 * 1024\<rparr>"

definition NewEtcdClient :: "(clientv3_Config \<Rightarrow> go_error + 'c) \<Rightarrow> string list \<Rightarrow> go_error + 'c" where
  "NewEtcdClient clientv3_New endpoint = clientv3_New (DefaultEtcdClientConfig endpoint)"

subsection \<open>Which keys are told apart\<close>

lemma quota_key_inj [simp]: "EtcdTenantQuotaKey t = EtcdTenantQuotaKey t' \<longleftrightarrow> t = t'"
  by (simp add: EtcdTenantQuotaKey_def)

lemma slash_inj:
  assumes "CHR ''/'' \<notin> set t" and "CHR ''/'' \<notin> set t'"
  shows "t @ CHR ''/'' # a = t' @ CHR ''/'' # b \<longleftrightarrow> t = t' \<and> a = b"
  using append_sep_inj [OF assms] by blast

text \<open>
  The etcd keys of tenants and datasets whose tenant ids contain no slash are all different:
  datasets of different tenants or names never share a key, and no dataset key is a quota key.
\<close>

lemma etcd_keys_distinct:
  assumes "CHR ''/'' \<notin> set t" and "CHR ''/'' \<notin> set t'"
  shows "(EtcdTenantDatasetEpochKey t d = EtcdTenantDatasetEpochKey t' d' \<longleftrightarrow> t = t' \<and> d = d')
    \<and> EtcdTenantDatasetEpochKey t d \<noteq> EtcdTenantQuotaKey t'"
  using assms by (simp add: EtcdTenantDatasetEpochKey_def EtcdTenantQuotaKey_def slash_inj)

lemma etcd_keys_distinct_witness:
  "EtcdTenantDatasetEpochKey ''acme'' ''clicks'' \<noteq> EtcdTenantDatasetEpochKey ''acme2'' ''clicks''"
  using etcd_keys_distinct [of "''acme''" "''acme2''" "''clicks''" "''clicks''"] by simp

text \<open>
  With a slash in the tenant id the keys do collide: the quota of one tenant is the epoch list of
  a dataset of another.
\<close>

lemma quota_dataset_collision:
  "EtcdTenantQuotaKey (t @ ''/datasets/'' @ d) = EtcdTenantDatasetEpochKey t (d @ ''/quota'')"
  by (simp add: EtcdTenantQuotaKey_def EtcdTenantDatasetEpochKey_def)

end
