(* ===== verification/Management_Service.thy ===== *)
theory Management_Service
  imports Epoch_Requests Proto_Serde Leadership Config
begin

text \<open>
  \<open>internal/api/grpc/management_service.go\<close>: the two calls of the management service and what they
  store.  The etcd client is the parameter of theory \<open>Etcd_Client\<close>; the protobuf runtime
  (\<open>proto.Marshal\<close>, \<open>proto.Unmarshal\<close>, \<open>proto.Equal\<close> and the timestamps) is the parameter
  \<open>protobuf\<close>, with its laws in the locale \<open>protobuf_runtime\<close>.  Logging is left out.
\<close>

subsection \<open>The protobuf runtime\<close>

record protobuf =
  pb_timestamppb :: timestamppb
  pb_TenantQuota :: "TenantQuota proto_codec"
  pb_EpochInfoList :: "EpochInfoList proto_codec"
  pb_Equal :: "EpochInfo \<Rightarrow> EpochInfo \<Rightarrow> bool"

locale protobuf_runtime =
  fixes P :: protobuf
  assumes quota_codec: "message_codec (pb_TenantQuota P)"
    and epochs_codec: "message_codec (pb_EpochInfoList P)"
    and Equal_eq: "pb_Equal P e e' \<longleftrightarrow> e = e'"

subsection \<open>Comparing epoch lists\<close>

text \<open>The inner loop of \<open>areEpochSlicesEqual\<close>: mark the first unmatched equal epoch.\<close>

fun matchEpoch :: "protobuf \<Rightarrow> EpochInfo \<Rightarrow> EpochInfo list \<Rightarrow> bool list \<Rightarrow> bool list option" where
  "matchEpoch P epochA (epochB # b) (m # matched) =
     (if \<not> m \<and> pb_Equal P epochA epochB then Some (True # matched)
      else map_option ((#) m) (matchEpoch P epochA b matched))"
| "matchEpoch P epochA b matched = None"

fun matchAll :: "protobuf \<Rightarrow> EpochInfo list \<Rightarrow> EpochInfo list \<Rightarrow> bool list \<Rightarrow> bool" where
  "matchAll P [] b matched = True"
| "matchAll P (epochA # a) b matched =
     (case matchEpoch P epochA b matched of None \<Rightarrow> False | Some matched' \<Rightarrow> matchAll P a b matched')"

definition areEpochSlicesEqual :: "protobuf \<Rightarrow> EpochInfo list \<Rightarrow> EpochInfo list \<Rightarrow> bool" where
  "areEpochSlicesEqual P a b =
     (if length a \<noteq> length b then False
      else matchAll P a b (replicate (length b) False))"

fun containsEpoch :: "protobuf \<Rightarrow> EpochInfo list \<Rightarrow> EpochInfo \<Rightarrow> bool" where
  "containsEpoch P [] target = False"
| "containsEpoch P (epoch # epochs) target = (if pb_Equal P epoch target then True else containsEpoch P epochs target)"

subsection \<open>Operations\<close>

record 's ManagementRPCService =
  ms_config :: LeibrixConfig
  ms_etcdClient :: "'s etcd_client"
  ms_leadership :: "LeadershipProvider option"

text \<open>The second component lists the clients that were closed again.\<close>

definition NewManagementService ::
  "(clientv3_Config \<Rightarrow> go_error + 's etcd_client) \<Rightarrow> ('s etcd_client \<Rightarrow> string \<Rightarrow> go_error option)
    \<Rightarrow> LeibrixConfig \<Rightarrow> LeadershipProvider option \<Rightarrow> 's ManagementRPCService outcome \<times> 's etcd_client list" where
  "NewManagementService clientv3_New cli_Status config leadership =
     (case NewEtcdClient clientv3_New (cc_ListenClientUrls (lc_ClusterConfig config)) of
        Inl err \<Rightarrow> (Err (''failed to create etcd client: '' @ err), [])
      | Inr cli \<Rightarrow>
        (case cc_ListenClientUrls (lc_ClusterConfig config) of
           [] \<Rightarrow> (Panic ''index out of range'', [])
         | url # _ \<Rightarrow>
           (case cli_Status cli url of
              Some err \<Rightarrow> (Err (''failed to connect to etcd: '' @ err), [cli])
            | None \<Rightarrow> (Ok \<lparr>ms_config = config, ms_etcdClient = cli, ms_leadership = leadership\<rparr>, []))))"

text \<open>
  The list \<open>saveEpochs\<close> writes over an existing one: the new epochs, then the existing ones that
  are not among them.
\<close>

definition mergeEpochs :: "protobuf \<Rightarrow> EpochInfo list \<Rightarrow> EpochInfo list \<Rightarrow> EpochInfoList" where
  "mergeEpochs P existing epochs =
     \<lparr>eil_Epochs = epochs @ filter (\<lambda>existEpoch. \<not> containsEpoch P epochs existEpoch) existing\<rparr>"

definition saveEpochs ::
  "protobuf \<Rightarrow> 's etcd_client \<Rightarrow> AdmitDatasetRequest \<Rightarrow> EpochInfo list \<Rightarrow> 's \<Rightarrow> unit outcome \<times> 's" where
  "saveEpochs P cli request epochs s =
     (let epochListKey = EtcdTenantDatasetEpochKey (ar_TenantId request) (ar_DatasetId request)
      in case GetProtoMessage (pb_EpochInfoList P) cli epochListKey \<lparr>eil_Epochs = []\<rparr> s of
           ((existEpochList, getRsp, Some err), s1) \<Rightarrow>
             if getRsp = Some []
             then (case PutProtoMessage (pb_EpochInfoList P) cli epochListKey \<lparr>eil_Epochs = epochs\<rparr> s1 of
                     (Inl putErr, s2) \<Rightarrow> (Err putErr, s2)
                   | (Inr mrev, s2) \<Rightarrow> (Ok (), s2))
             else (Err (''failed to get existing epoch list: '' @ err), s1)
         | ((existEpochList, getRsp, None), s1) \<Rightarrow>
             if areEpochSlicesEqual P (eil_Epochs existEpochList) epochs then (Ok (), s1)
             else
               (let epochList = mergeEpochs P (eil_Epochs existEpochList) epochs;
                    epochListBytes = (case Marshal (pb_EpochInfoList P) epochList of Inl e \<Rightarrow> '''' | Inr b \<Rightarrow> b)
                in case getRsp of
                     Some (kv # kvs) \<Rightarrow>
                       (case cli_Txn cli [CompareModRevision epochListKey (kv_ModRevision kv)]
                               [OpPut epochListKey epochListBytes] [OpGet epochListKey] s1 of
                          (Inl commitErr, s2) \<Rightarrow> (Err commitErr, s2)
                        | (Inr succeeded, s2) \<Rightarrow>
                            if \<not> succeeded then (Err ''failed to save epoch list due to concurrent modification'', s2)
                            else (Ok (), s2))
                   | _ \<Rightarrow> (Panic ''index out of range'', s1)))"

definition validateAdmitRequest :: "AdmitDatasetRequest \<Rightarrow> go_error option" where
  "validateAdmitRequest request =
     (if ar_TenantId request = '''' then Some ''tenant_id is required''
      else if ar_DatasetId request = '''' then Some ''dataset_id is required''
      else if ar_Source request = None then Some ''source is required''
      else None)"

definition rejected :: "string \<Rightarrow> AdmitDatasetResponse" where
  "rejected msg = \<lparr>arr_Status = ADMIT_REJECTED, arr_Epochs = None, arr_Message = msg\<rparr>"

text \<open>\<open>MaxEpochs > 0 && int32(len(epochs)) > MaxEpochs\<close>\<close>

definition exceedsQuota :: "TenantQuota \<Rightarrow> EpochInfo list \<Rightarrow> bool" where
  "exceedsQuota quota epochs \<longleftrightarrow>
     0 < sint (tq_MaxEpochs quota) \<and> sint (tq_MaxEpochs quota) < sint (of_nat (length epochs) :: 32 word)"

definition AdmitDataset ::
  "protobuf \<Rightarrow> 's ManagementRPCService \<Rightarrow> AdmitDatasetRequest \<Rightarrow> 's \<Rightarrow> (AdmitDatasetResponse rpc \<times> 's) option" where
  "AdmitDataset P m request s =
     (case requireLeader (ms_leadership m) (nc_NodeName (lc_Node (ms_config m))) of
        Some err \<Rightarrow> Some (Fail err, s)
      | None \<Rightarrow>
        (case validateAdmitRequest request of
           Some err \<Rightarrow> Some (Reply (rejected (''validation failed: '' @ err)), s)
         | None \<Rightarrow>
           (case GetProtoMessage (pb_TenantQuota P) (ms_etcdClient m) (EtcdTenantQuotaKey (ar_TenantId request))
                   \<lparr>tq_TenantId = '''', tq_MaxDatasets = 0, tq_MaxEpochs = 0, tq_MaxStorageMb = 0\<rparr> s of
              ((tenantQuota, rsp, Some getErr), s1) \<Rightarrow>
                Some (Reply (rejected (''failed to retrieve tenant quota: '' @ getErr)), s1)
            | ((tenantQuota, rsp, None), s1) \<Rightarrow>
                (case GenerateEpochs (pb_timestamppb P) request of
                   None \<Rightarrow> None
                 | Some (Panic p) \<Rightarrow> Some (Crash p, s1)
                 | Some (Err err) \<Rightarrow> Some (Reply (rejected (''epoch generation failed: '' @ err)), s1)
                 | Some (Ok epochs) \<Rightarrow>
                     if exceedsQuota tenantQuota epochs
                     then Some (Reply (rejected (''epoch count '' @ string_of_int (int (length epochs))
                            @ '' exceeds tenant quota '' @ string_of_int (sint (tq_MaxEpochs tenantQuota)))), s1)
                     else (case saveEpochs P (ms_etcdClient m) request epochs s1 of
                             (Err e, s2) \<Rightarrow> Some (Fail (PlainError e), s2)
                           | (Panic p, s2) \<Rightarrow> Some (Crash p, s2)
                           | (Ok _, s2) \<Rightarrow>
                               Some (Reply \<lparr>arr_Status = ADMIT_ACCEPTED,
                                            arr_Epochs = Some \<lparr>eil_Epochs = epochs\<rparr>, arr_Message = ''''\<rparr>, s2))))))"

definition UpsertTenantQuota ::
  "protobuf \<Rightarrow> 's ManagementRPCService \<Rightarrow> TenantQuota \<Rightarrow> 's \<Rightarrow> CommonResponse rpc \<times> 's" where
  "UpsertTenantQuota P m request s =
     (case requireLeader (ms_leadership m) (nc_NodeName (lc_Node (ms_config m))) of
        Some err \<Rightarrow> (Fail err, s)
      | None \<Rightarrow>
          if tq_TenantId request = ''''
          then (Reply \<lparr>cr_Status = STATUS_ERROR, cr_Message = ''tenant_id cannot be empty''\<rparr>, s)
          else if sint (tq_MaxDatasets request) < 0 \<or> sint (tq_MaxEpochs request) < 0 \<or> sint (tq_MaxStorageMb request) < 0
          then (Reply \<lparr>cr_Status = STATUS_ERROR, cr_Message = ''quota values cannot be negative''\<rparr>, s)
          else (case PutProtoMessage (pb_TenantQuota P) (ms_etcdClient m)
                       (EtcdTenantQuotaKey (tq_TenantId request)) request s of
                  (Inl putErr, s') \<Rightarrow> (Fail (PlainError putErr), s')
                | (Inr mrev, s') \<Rightarrow> (Reply \<lparr>cr_Status = STATUS_SUCCESS, cr_Message = ''''\<rparr>, s')))"

text \<open>The error of closing the client, if there is a client and closing it fails.\<close>

definition ManagementService_Close :: "('c \<Rightarrow> go_error option) \<Rightarrow> 'c option \<Rightarrow> go_error option" where
  "ManagementService_Close cli_Close etcdClient =
     (case etcdClient of Some cli \<Rightarrow> cli_Close cli | None \<Rightarrow> None)"

end
