(* ===== verification/Management_Correctness.thy ===== *)
theory Management_Correctness
  imports Management_Service "HOL-Library.Multiset"
begin

text \<open>
  Correctness of the management service: the comparison of epoch lists is equality of multisets;
  an admission that reports success has stored the new epochs without losing the old ones, also
  when other clients write at the same time, as long as the list existed before; rejected
  admissions write nothing; quotas read back as written.
\<close>

subsection \<open>Epoch lists as multisets\<close>

definition unmatched :: "EpochInfo list \<Rightarrow> bool list \<Rightarrow> EpochInfo multiset" where
  "unmatched b matched = mset (map fst (filter (\<lambda>(e, m). \<not> m) (zip b matched)))"

lemma unmatched_simps [simp]:
  "unmatched [] matched = {#}"
  "unmatched (e # b) (m # matched) = (if m then unmatched b matched else add_mset e (unmatched b matched))"
  by (simp_all add: unmatched_def)

lemma unmatched_fresh: "unmatched b (replicate (length b) False) = mset b"
  by (induction b) simp_all

context protobuf_runtime
begin

lemma containsEpoch_iff [simp]: "containsEpoch P epochs e \<longleftrightarrow> e \<in> set epochs"
  by (induction epochs) (auto simp: Equal_eq)

lemma matchEpoch_None:
  "length matched = length b \<Longrightarrow> matchEpoch P e b matched = None \<longleftrightarrow> e \<notin># unmatched b matched"
  by (induction b arbitrary: matched) (auto simp: Equal_eq length_Suc_conv split: if_splits)

lemma matchEpoch_Some:
  "length matched = length b \<Longrightarrow> matchEpoch P e b matched = Some matched' \<Longrightarrow>
     length matched' = length b \<and> unmatched b matched = add_mset e (unmatched b matched')"
proof (induction b arbitrary: matched matched')
  case (Cons e' b)
  then show ?case by (cases matched) (auto simp: Equal_eq split: if_splits)
qed simp

lemma matchAll_iff: "length matched = length b \<Longrightarrow> matchAll P a b matched \<longleftrightarrow> mset a \<subseteq># unmatched b matched"
proof (induction a arbitrary: matched)
  case Nil
  show ?case by simp
next
  case (Cons e a)
  show ?case
  proof (cases "matchEpoch P e b matched")
    case None
    with Cons.prems have "e \<notin># unmatched b matched" by (simp add: matchEpoch_None)
    then show ?thesis using None by (auto dest: mset_subset_eqD)
  next
    case (Some matched')
    with matchEpoch_Some [OF Cons.prems Some] Cons.IH [of matched'] show ?thesis by simp
  qed
qed

lemma areEpochSlicesEqual_mset: "areEpochSlicesEqual P a b \<longleftrightarrow> mset a = mset b"
proof (cases "length a = length b")
  case True
  then have "mset a \<subseteq># mset b \<longleftrightarrow> mset a = mset b"
    by (metis size_mset mset_subset_size subset_mset.le_less less_irrefl)
  with True show ?thesis by (simp add: areEpochSlicesEqual_def matchAll_iff unmatched_fresh)
next
  case False
  then show ?thesis by (auto simp: areEpochSlicesEqual_def dest: mset_eq_length)
qed

lemma mergeEpochs_set: "set (eil_Epochs (mergeEpochs P old new)) = set new \<union> set old"
  by (auto simp: mergeEpochs_def)

lemma mergeEpochs_again:
  "mergeEpochs P (eil_Epochs (mergeEpochs P old new)) new = mergeEpochs P old new"
  by (simp add: mergeEpochs_def)

end

text \<open>
  C25: \<open>areEpochSlicesEqual\<close> compares epoch lists up to their order, counting repeated epochs:
  marking matched positions one by one decides equality of the multisets.
\<close>

theorem areEpochSlicesEqual_iff_mset:
  "protobuf_runtime P \<Longrightarrow> areEpochSlicesEqual P a b \<longleftrightarrow> mset a = mset b"
  by (rule protobuf_runtime.areEpochSlicesEqual_mset)

subsection \<open>saveEpochs with other clients\<close>

abbreviation epochs_key :: "AdmitDatasetRequest \<Rightarrow> string" where
  "epochs_key request \<equiv> EtcdTenantDatasetEpochKey (ar_TenantId request) (ar_DatasetId request)"

abbreviation epochs_at :: "protobuf \<Rightarrow> kv_store \<Rightarrow> AdmitDatasetRequest \<Rightarrow> EpochInfoList option" where
  "epochs_at P m request \<equiv> message_at (pb_EpochInfoList P) m (epochs_key request)"

text \<open>The three ways \<open>saveEpochs\<close> succeeds: it creates the list, finds nothing to do, or replaces the list.\<close>

lemma saveEpochs_Ok_cases:
  assumes "saveEpochs P cli request epochs s = (Ok (), s')"
  obtains
    (create) m err s1 mrev where
      "GetProtoMessage (pb_EpochInfoList P) cli (epochs_key request) \<lparr>eil_Epochs = []\<rparr> s = ((m, Some [], Some err), s1)"
      "PutProtoMessage (pb_EpochInfoList P) cli (epochs_key request) \<lparr>eil_Epochs = epochs\<rparr> s1 = (Inr mrev, s')"
  | (same) m rsp where
      "GetProtoMessage (pb_EpochInfoList P) cli (epochs_key request) \<lparr>eil_Epochs = []\<rparr> s = ((m, rsp, None), s')"
      "areEpochSlicesEqual P (eil_Epochs m) epochs"
  | (update) m kv kvs s1 where
      "GetProtoMessage (pb_EpochInfoList P) cli (epochs_key request) \<lparr>eil_Epochs = []\<rparr> s = ((m, Some (kv # kvs), None), s1)"
      "\<not> areEpochSlicesEqual P (eil_Epochs m) epochs"
      "cli_Txn cli [CompareModRevision (epochs_key request) (kv_ModRevision kv)]
         [OpPut (epochs_key request) (case Marshal (pb_EpochInfoList P) (mergeEpochs P (eil_Epochs m) epochs) of
            Inl e \<Rightarrow> '''' | Inr b \<Rightarrow> b)] [OpGet (epochs_key request)] s1 = (Inr True, s')"
proof -
  obtain m rsp err s1 where get:
    "GetProtoMessage (pb_EpochInfoList P) cli (epochs_key request) \<lparr>eil_Epochs = []\<rparr> s = ((m, rsp, err), s1)"
    by (metis surj_pair)
  show thesis
    using assms get that
    by (cases err) (auto simp: saveEpochs_def Let_def split: if_splits sum.splits prod.splits option.splits list.splits)
qed

context etcd_service
begin

text \<open>What \<open>GetProtoMessage\<close> saw, at the moment its request was served.\<close>

lemma GetProtoMessage_Ok:
  assumes "GetProtoMessage C cli key msg s = ((m, rsp, None), s')"
  shows "\<exists>s1 kv. env s s1 \<and> env s1 s' \<and> store s1 key = Some kv \<and> rsp = Some [kv] \<and> message_at C (store s1) key = Some m"
proof -
  obtain kv kvs where kv: "cli_Get cli key s = (Inr (kv # kvs), s')" "Unmarshal C (kv_Value kv) = Inr m" "rsp = Some (kv # kvs)"
    using assms by (auto simp: GetProtoMessage_def split: prod.splits sum.splits list.splits)
  from Get_Ok [OF kv(1)] obtain s1 where "env s s1" "env s1 s'" "store s1 key = Some kv" "kvs = []"
    by (auto simp: found_def split: option.splits)
  with kv show ?thesis by (auto simp: message_at_def intro!: exI [of _ s1])
qed

lemma GetProtoMessage_missing:
  assumes "GetProtoMessage C cli key msg s = ((m, Some [], err), s')"
  shows "\<exists>s1. env s s1 \<and> env s1 s' \<and> store s1 key = None"
  using assms
  by (auto simp: GetProtoMessage_def found_def dest!: Get_Ok
      split: prod.splits sum.splits list.splits option.splits)

text \<open>A transaction guarded by the revision that was read sees the value that was read.\<close>

lemma Txn_unchanged:
  assumes read: "store s1 key = Some kv" "env s1 s2"
    and txn: "cli_Txn cli [CompareModRevision key (kv_ModRevision kv)] ts es s2 = (Inr True, s')"
  shows "\<exists>s3 s4 mrev. env s1 s3 \<and> store s3 key = Some kv \<and> store s4 = exec_ops mrev ts (store s3) \<and> env s4 s'"
proof -
  obtain s3 s4 mrev where s3: "env s2 s3" "cmp_holds (store s3) (CompareModRevision key (kv_ModRevision kv))"
      "store s4 = exec_ops mrev ts (store s3)" "env s4 s'"
    using Txn_Ok [OF txn] by auto
  have "env s1 s3" using read(2) s3(1) by (rule env_trans)
  have "store s3 key \<noteq> None" using s3(2) revision_positive [OF read(1)] by (cases "store s3 key") auto
  then obtain kv' where "store s3 key = Some kv'" by auto
  with s3(2) have "store s3 key = Some kv" using env_revision [OF \<open>env s1 s3\<close> read(1)] by auto
  with s3 \<open>env s1 s3\<close> show ?thesis by blast
qed

lemma saveEpochs_update:
  assumes "protobuf_runtime P" and ok: "saveEpochs P cli request epochs s = (Ok (), s')"
    and marshal: "\<And>s1 old. env s s1 \<Longrightarrow> epochs_at P (store s1) request = Some old \<Longrightarrow>
          \<exists>b. Marshal (pb_EpochInfoList P) (mergeEpochs P (eil_Epochs old) epochs) = Inr b"
    and exists: "\<And>s1. env s s1 \<Longrightarrow> store s1 (epochs_key request) \<noteq> None"
  shows "\<exists>s1 s2 old new. env s s1 \<and> epochs_at P (store s1) request = Some old
    \<and> epochs_at P (store s2) request = Some new \<and> env s2 s'
    \<and> set (eil_Epochs new) = set epochs \<union> set (eil_Epochs old)
    \<and> (\<forall>k. k \<noteq> epochs_key request \<longrightarrow> store s2 k = store s1 k)"
  using ok
proof (cases rule: saveEpochs_Ok_cases)
  case (create m err s1 mrev)
  show ?thesis using GetProtoMessage_missing [OF create(1)] exists by blast
next
  case (same m rsp)
  from GetProtoMessage_Ok [OF same(1)] obtain s1 where
    "env s s1" "env s1 s'" "epochs_at P (store s1) request = Some m" by blast
  moreover have "set (eil_Epochs m) = set epochs"
    using same(2) protobuf_runtime.areEpochSlicesEqual_mset [OF assms(1)] by (metis set_mset_mset)
  ultimately show ?thesis by blast
next
  case (update m kv kvs s0)
  let ?new = "mergeEpochs P (eil_Epochs m) epochs"
  from GetProtoMessage_Ok [OF update(1)] obtain s1 where
    s1: "env s s1" "env s1 s0" "store s1 (epochs_key request) = Some kv" "epochs_at P (store s1) request = Some m" by auto
  obtain b where b: "Marshal (pb_EpochInfoList P) ?new = Inr b" using marshal s1(1,4) by blast
  from Txn_unchanged [OF s1(3,2) update(3)] b obtain s3 s4 mrev where
    s3: "env s1 s3" "store s3 (epochs_key request) = Some kv"
      "store s4 = exec_ops mrev [OpPut (epochs_key request) b] (store s3)" "env s4 s'" by auto
  have "env s s3" using s1(1) s3(1) by (rule env_trans)
  moreover have "epochs_at P (store s3) request = Some m" using s1(3,4) s3(2) by (simp add: message_at_def)
  moreover have "epochs_at P (store s4) request = Some ?new"
    using message_codec.Unmarshal_Marshal [OF protobuf_runtime.epochs_codec [OF assms(1)] b]
    by (simp add: s3(3) message_at_def)
  moreover have "\<forall>k. k \<noteq> epochs_key request \<longrightarrow> store s4 k = store s3 k" by (simp add: s3(3))
  ultimately show ?thesis
    using s3(4) protobuf_runtime.mergeEpochs_set [OF assms(1)] by blast
qed

end

subsection \<open>The calls without other clients\<close>

lemma AdmitDataset_accepted_cases:
  assumes "AdmitDataset P m request s = Some (Reply resp, s')" and "arr_Status resp = ADMIT_ACCEPTED"
  obtains quota rsp s1 epochs where
    "requireLeader (ms_leadership m) (nc_NodeName (lc_Node (ms_config m))) = None"
    "validateAdmitRequest request = None"
    "GetProtoMessage (pb_TenantQuota P) (ms_etcdClient m) (EtcdTenantQuotaKey (ar_TenantId request))
       \<lparr>tq_TenantId = '''', tq_MaxDatasets = 0, tq_MaxEpochs = 0, tq_MaxStorageMb = 0\<rparr> s = ((quota, rsp, None), s1)"
    "GenerateEpochs (pb_timestamppb P) request = Some (Ok epochs)" "\<not> exceedsQuota quota epochs"
    "saveEpochs P (ms_etcdClient m) request epochs s1 = (Ok (), s')"
    "arr_Epochs resp = Some \<lparr>eil_Epochs = epochs\<rparr>"
  using assms
  by (auto simp: AdmitDataset_def rejected_def split: option.splits prod.splits outcome.splits if_splits)

context etcd_alone
begin

lemma saveEpochs_frame:
  assumes "saveEpochs P cli request epochs s = (r, s')" and "k \<noteq> epochs_key request"
  shows "store s' k = store s k"
proof -
  obtain m rsp err s1 where get:
    "GetProtoMessage (pb_EpochInfoList P) cli (epochs_key request) \<lparr>eil_Epochs = []\<rparr> s = ((m, rsp, err), s1)"
    by (metis surj_pair)
  have "store s1 = store s" by (rule GetProtoMessage_alone(1) [OF get])
  then show ?thesis
    using assms get
    by (cases err) (auto simp: saveEpochs_def Let_def dest: PutProtoMessage_frame [OF _ assms(2)]
      dest!: Txn_alone Txn_Err_alone
      split: if_splits sum.splits prod.splits option.splits list.splits)
qed

text \<open>A call that fails has written nothing, unless it is the write itself that reports the error.\<close>

lemma Put_failed:
  assumes "cli_Put cli k v s = (Inl e, s')"
  shows "store s' = store s \<or> (\<exists>mrev. store s' = exec_ops mrev [OpPut k v] (store s))"
  using Put_Err [OF assms] quiet by metis

lemma PutProtoMessage_failed:
  assumes "PutProtoMessage C cli k msg s = (Inl e, s')"
  shows "store s' = store s \<or> (\<exists>mrev b. store s' = exec_ops mrev [OpPut k b] (store s))"
proof (cases "Marshal C msg")
  case (Inl err)
  with assms show ?thesis by (simp add: PutProtoMessage_def)
next
  case (Inr b)
  with assms have "cli_Put cli k b s = (Inl e, s')" by (simp add: PutProtoMessage_def)
  from Put_failed [OF this] show ?thesis by blast
qed

lemma Txn_failed:
  assumes "cli_Txn cli cs [OpPut k v] [OpGet k] s = (r, s')" and "r \<noteq> Inr True"
  shows "store s' = store s \<or> (\<exists>mrev b. store s' = exec_ops mrev [OpPut k b] (store s))"
proof (cases r)
  case (Inl e)
  with Txn_Err_alone [of cs "[OpPut k v]"] assms(1) show ?thesis by blast
next
  case (Inr ok)
  with assms have "\<not> ok" by simp
  with Txn_alone [of cs "[OpPut k v]" "[OpGet k]" s ok s'] assms(1) Inr show ?thesis by simp
qed

lemma saveEpochs_failed:
  assumes "saveEpochs P cli request epochs s = (r, s')" and "r \<noteq> Ok ()"
  shows "store s' = store s \<or> (\<exists>e mrev b. r = Err e \<and> store s' = exec_ops mrev [OpPut (epochs_key request) b] (store s))"
proof -
  obtain m rsp err s1 where get:
    "GetProtoMessage (pb_EpochInfoList P) cli (epochs_key request) \<lparr>eil_Epochs = []\<rparr> s = ((m, rsp, err), s1)"
    by (metis surj_pair)
  have s1: "store s1 = store s" by (rule GetProtoMessage_alone(1) [OF get])
  from assms get have "s' = s1 \<or> (\<exists>e. r = Err e \<and>
      ((\<exists>err. PutProtoMessage (pb_EpochInfoList P) cli (epochs_key request) \<lparr>eil_Epochs = epochs\<rparr> s1 = (Inl err, s'))
       \<or> (\<exists>cs v res. cli_Txn cli cs [OpPut (epochs_key request) v] [OpGet (epochs_key request)] s1 = (res, s') \<and> res \<noteq> Inr True)))"
    by (cases err) (auto simp: saveEpochs_def Let_def split: if_splits sum.splits prod.splits option.splits list.splits)
  then show ?thesis using s1 PutProtoMessage_failed Txn_failed by metis
qed

lemma saveEpochs_alone:
  assumes "protobuf_runtime P" and ok: "saveEpochs P cli request epochs s = (Ok (), s')"
    and marshal: "\<And>old. epochs_at P (store s) request = Some old \<Longrightarrow> mset (eil_Epochs old) \<noteq> mset epochs \<Longrightarrow>
          \<exists>b. Marshal (pb_EpochInfoList P) (mergeEpochs P (eil_Epochs old) epochs) = Inr b"
  shows "case epochs_at P (store s) request of
      None \<Rightarrow> epochs_at P (store s') request = Some \<lparr>eil_Epochs = epochs\<rparr>
    | Some old \<Rightarrow>
        if mset (eil_Epochs old) = mset epochs then store s' = store s
        else epochs_at P (store s') request = Some (mergeEpochs P (eil_Epochs old) epochs)"
  using ok
proof (cases rule: saveEpochs_Ok_cases)
  case (create m err s1 mrev)
  have "store s (epochs_key request) = None" using GetProtoMessage_alone(3) [OF create(1)] by simp
  moreover have "epochs_at P (store s') request = Some \<lparr>eil_Epochs = epochs\<rparr>"
    by (rule PutProtoMessage_alone [OF create(2) protobuf_runtime.epochs_codec [OF assms(1)]])
  ultimately show ?thesis by (simp add: message_at_def)
next
  case (same m rsp)
  then show ?thesis
    using GetProtoMessage_alone(1,2) [OF same(1)] protobuf_runtime.areEpochSlicesEqual_mset [OF assms(1)] by simp
next
  case (update m kv kvs s1)
  have m: "store s1 = store s" "epochs_at P (store s) request = Some m"
    using GetProtoMessage_alone(1,2) [OF update(1)] by simp_all
  obtain b where b: "Marshal (pb_EpochInfoList P) (mergeEpochs P (eil_Epochs m) epochs) = Inr b"
    using marshal m(2) update(2) protobuf_runtime.areEpochSlicesEqual_mset [OF assms(1)] by blast
  have "epochs_at P (store s') request = Some (mergeEpochs P (eil_Epochs m) epochs)"
    using Txn_alone [OF update(3)] b m(1)
      message_codec.Unmarshal_Marshal [OF protobuf_runtime.epochs_codec [OF assms(1)] b]
    by (auto simp: message_at_def)
  with m update(2) show ?thesis
    by (simp add: protobuf_runtime.areEpochSlicesEqual_mset [OF assms(1)])
qed

end

text \<open>What an accepted admission does to the stored list.\<close>

lemma AdmitDataset_accepted_effect:
  assumes "etcd_alone (ms_etcdClient m) store env" and "protobuf_runtime P"
    and "AdmitDataset P m request s = Some (Reply resp, s')" and "arr_Status resp = ADMIT_ACCEPTED"
    and "GenerateEpochs (pb_timestamppb P) request = Some (Ok es)"
    and "\<And>old. epochs_at P (store s) request = Some old \<Longrightarrow> mset (eil_Epochs old) \<noteq> mset es \<Longrightarrow>
          \<exists>b. Marshal (pb_EpochInfoList P) (mergeEpochs P (eil_Epochs old) es) = Inr b"
  shows "case epochs_at P (store s) request of
      None \<Rightarrow> epochs_at P (store s') request = Some \<lparr>eil_Epochs = es\<rparr>
    | Some old \<Rightarrow>
        if mset (eil_Epochs old) = mset es then store s' = store s
        else epochs_at P (store s') request = Some (mergeEpochs P (eil_Epochs old) es)"
  using assms(3,4)
proof (cases rule: AdmitDataset_accepted_cases)
  case (1 quota rsp s1 es')
  have "store s1 = store s" by (rule etcd_alone.GetProtoMessage_alone(1) [OF assms(1) 1(3)])
  moreover have "es' = es" using 1(4) assms(5) by simp
  ultimately show ?thesis
    using etcd_alone.saveEpochs_alone [OF assms(1,2) 1(6)] assms(6) by metis
qed

subsection \<open>An example\<close>

text \<open>
  A protobuf runtime that encodes the messages listed in two tables, a tenant with a quota of ten
  epochs, and two small epochs.
\<close>

definition table_protobuf :: "(TenantQuota \<times> string) list \<Rightarrow> (EpochInfoList \<times> string) list \<Rightarrow> protobuf" where
  "table_protobuf quotas ls =
     \<lparr>pb_timestamppb = unix_codec, pb_TenantQuota = table_codec quotas,
      pb_EpochInfoList = table_codec ls, pb_Equal = (=)\<rparr>"

lemma table_protobuf_simps [simp]:
  "pb_timestamppb (table_protobuf quotas ls) = unix_codec"
  "pb_TenantQuota (table_protobuf quotas ls) = table_codec quotas"
  "pb_EpochInfoList (table_protobuf quotas ls) = table_codec ls"
  "pb_Equal (table_protobuf quotas ls) = (=)"
  by (simp_all add: table_protobuf_def)

lemma table_protobuf_runtime:
  "distinct (map snd quotas) \<Longrightarrow> distinct (map snd ls) \<Longrightarrow> protobuf_runtime (table_protobuf quotas ls)"
  by (rule protobuf_runtime.intro) (simp_all add: table_codec)

definition acme_quota :: TenantQuota where
  "acme_quota = \<lparr>tq_TenantId = ''acme'', tq_MaxDatasets = 3, tq_MaxEpochs = 10, tq_MaxStorageMb = 1024\<rparr>"

definition oct_epochs :: "EpochInfo list" where
  "oct_epochs = sliceEpochs unix_codec oct_range daily (fmupd ''region'' ''us'' fmempty) 4
     @ sliceEpochs unix_codec oct_range daily (fmupd ''region'' ''eu'' fmempty) 4"

definition epoch_named :: "string \<Rightarrow> EpochInfo" where
  "epoch_named n = \<lparr>ei_EpochId = n, ei_TimeRange = None, ei_DimensionValues = fmempty\<rparr>"

definition acme_protobuf :: protobuf where
  "acme_protobuf = table_protobuf [(acme_quota, ''quota'')] 
     [(\<lparr>eil_Epochs = oct_epochs\<rparr>, ''epochs''),
      (\<lparr>eil_Epochs = [epoch_named ''a'']\<rparr>, ''a''),
      (\<lparr>eil_Epochs = oct_epochs @ [epoch_named ''a'']\<rparr>, ''merged'')]"

definition ab_protobuf :: protobuf where
  "ab_protobuf = table_protobuf [(acme_quota, ''quota'')]
     [(\<lparr>eil_Epochs = [epoch_named ''a'']\<rparr>, ''a''),
      (\<lparr>eil_Epochs = [epoch_named ''b'']\<rparr>, ''b''),
      (\<lparr>eil_Epochs = [epoch_named ''b'', epoch_named ''a'']\<rparr>, ''ba'')]"

interpretation acme_quota_codec: message_codec "table_codec [(acme_quota, ''quota'')]"
  by (rule table_codec) simp

interpretation acme_runtime: protobuf_runtime acme_protobuf
  unfolding acme_protobuf_def by (rule table_protobuf_runtime) simp_all

interpretation ab_runtime: protobuf_runtime ab_protobuf
  unfolding ab_protobuf_def by (rule table_protobuf_runtime) simp_all

lemma oct_request_epochs: "GenerateEpochs unix_codec (oct_request None) = Some (Ok oct_epochs)"
  by (simp add: GenerateEpochs_def oct_request_range oct_request_granularity oct_request_dimensions
      oct_range_slices oct_epochs_def)

lemma oct_epochs_count [simp]: "length oct_epochs = 8" "oct_epochs \<noteq> []" "[] \<noteq> oct_epochs"
  by (simp_all add: oct_epochs_def sliceEpochs_def)

lemma epoch_named_fresh: "epoch_named n \<notin> set oct_epochs" "[epoch_named n] \<noteq> oct_epochs" "oct_epochs \<noteq> [epoch_named n]"
proof -
  show fresh: "epoch_named n \<notin> set oct_epochs"
    by (auto simp: epoch_named_def oct_epochs_def sliceEpochs_def newEpoch_def)
  show "[epoch_named n] \<noteq> oct_epochs" "oct_epochs \<noteq> [epoch_named n]" using fresh by (metis list.set_intros(1))+
qed

definition acme_service :: "batch list ManagementRPCService" where
  "acme_service = \<lparr>ms_config = example_config, ms_etcdClient = log_client,
     ms_leadership = Some \<lparr>lp_IsLeader = True, lp_LeaderName = ''node1''\<rparr>\<rparr>"

definition acme_store :: "batch list" where
  "acme_store = [[(EtcdTenantQuotaKey ''acme'', ''quota'')]]"

definition acme_admitted :: "batch list" where
  "acme_admitted = [(EtcdTenantDatasetEpochKey ''acme'' ''clicks'', ''epochs'')] # acme_store"

text \<open>The same store with an epoch list of another admission, and after one and two further admissions.\<close>

definition acme_old :: "batch list" where
  "acme_old = [(EtcdTenantDatasetEpochKey ''acme'' ''clicks'', ''a'')] # acme_store"

definition acme_merged :: "nat \<Rightarrow> batch list" where
  "acme_merged n = replicate n [(EtcdTenantDatasetEpochKey ''acme'' ''clicks'', ''merged'')] @ acme_old"

definition accepted :: "EpochInfo list \<Rightarrow> AdmitDatasetResponse" where
  "accepted es = \<lparr>arr_Status = ADMIT_ACCEPTED, arr_Epochs = Some \<lparr>eil_Epochs = es\<rparr>, arr_Message = ''''\<rparr>"

lemmas admit_evaluation =
  AdmitDataset_def GetProtoMessage_def PutProtoMessage_def saveEpochs_def
  acme_service_def acme_protobuf_def log_client_def table_codec_def Let_def
  EtcdTenantQuotaKey_def EtcdTenantDatasetEpochKey_def

lemma acme_first:
  "AdmitDataset acme_protobuf acme_service (oct_request None) acme_store = Some (Reply (accepted oct_epochs), acme_admitted)"
  using oct_request_epochs
  by (simp add: admit_evaluation validateAdmitRequest_def oct_request_def acme_store_def acme_admitted_def
      accepted_def exceedsQuota_def acme_quota_def log_exec_def puts_of_def)

lemma acme_mset: "mset [epoch_named ''a''] \<noteq> mset oct_epochs" "mset (oct_epochs @ [epoch_named ''a'']) \<noteq> mset oct_epochs"
proof -
  have "length (oct_epochs @ [epoch_named ''a'']) \<noteq> length oct_epochs" "length [epoch_named ''a''] \<noteq> length oct_epochs"
    by simp_all
  then show "mset [epoch_named ''a''] \<noteq> mset oct_epochs" "mset (oct_epochs @ [epoch_named ''a'']) \<noteq> mset oct_epochs"
    by (metis mset_eq_length)+
qed

lemma acme_merge:
  "mergeEpochs acme_protobuf [epoch_named ''a''] oct_epochs = \<lparr>eil_Epochs = oct_epochs @ [epoch_named ''a'']\<rparr>"
  "mergeEpochs acme_protobuf (oct_epochs @ [epoch_named ''a'']) oct_epochs = \<lparr>eil_Epochs = oct_epochs @ [epoch_named ''a'']\<rparr>"
  by (simp_all add: mergeEpochs_def epoch_named_fresh)

lemma acme_again:
  "AdmitDataset acme_protobuf acme_service (oct_request None) acme_old = Some (Reply (accepted oct_epochs), acme_merged 1)"
  "AdmitDataset acme_protobuf acme_service (oct_request None) (acme_merged 1) = Some (Reply (accepted oct_epochs), acme_merged 2)"
  using oct_request_epochs acme_mset acme_runtime.areEpochSlicesEqual_mset acme_merge epoch_named_fresh
  by (simp_all add: admit_evaluation validateAdmitRequest_def oct_request_def acme_store_def acme_old_def acme_merged_def
      accepted_def exceedsQuota_def acme_quota_def log_exec_def puts_of_def numeral_2_eq_2)

subsection \<open>Properties\<close>

theorem areEpochSlicesEqual_iff_mset_witness:
  "areEpochSlicesEqual ab_protobuf [epoch_named ''a'', epoch_named ''b''] [epoch_named ''b'', epoch_named ''a'']"
  using areEpochSlicesEqual_iff_mset [OF ab_runtime.protobuf_runtime_axioms,
      of "[epoch_named ''a'', epoch_named ''b'']" "[epoch_named ''b'', epoch_named ''a'']"]
  by simp

text \<open>
  C5: no admission into an existing list loses an epoch, whatever other clients write meanwhile,
  as long as nobody deletes the list.  When \<open>saveEpochs\<close> succeeds, there is a moment at which the
  stored list becomes exactly the epochs it had just before together with the new ones, and no
  other key changes at that moment.
\<close>

theorem saveEpochs_no_lost_update:
  assumes "etcd_service cli store env" and "protobuf_runtime P"
    and "saveEpochs P cli request epochs s = (Ok (), s')"
    and "\<And>s1 old. env s s1 \<Longrightarrow> epochs_at P (store s1) request = Some old \<Longrightarrow>
          \<exists>b. Marshal (pb_EpochInfoList P) (mergeEpochs P (eil_Epochs old) epochs) = Inr b"
    and "\<And>s1. env s s1 \<Longrightarrow> store s1 (epochs_key request) \<noteq> None"
  shows "\<exists>s1 s2 old new. env s s1 \<and> epochs_at P (store s1) request = Some old
    \<and> epochs_at P (store s2) request = Some new \<and> env s2 s'
    \<and> set (eil_Epochs new) = set epochs \<union> set (eil_Epochs old)
    \<and> (\<forall>k. k \<noteq> epochs_key request \<longrightarrow> store s2 k = store s1 k)"
  using etcd_service.saveEpochs_update [OF assms(1-3)] assms(4,5) by blast

abbreviation ab_before :: busy where
  "ab_before \<equiv> \<lparr>busy_log = [[(epochs_key (oct_request None), ''a'')]],
     busy_others = [[[(epochs_key (oct_request None), ''a'')]]]\<rparr>"

abbreviation ab_after :: busy where
  "ab_after \<equiv> \<lparr>busy_log = [(epochs_key (oct_request None), ''ba'')] # replicate 2 [(epochs_key (oct_request None), ''a'')],
     busy_others = []\<rparr>"

lemma ab_update:
  "saveEpochs ab_protobuf busy_client (oct_request None) [epoch_named ''b''] ab_before = (Ok (), ab_after)"
  by (simp add: saveEpochs_def GetProtoMessage_def busy_client_def busy_lift_def busy_arrive_def log_client_def
      ab_protobuf_def table_codec_def mergeEpochs_def areEpochSlicesEqual_def epoch_named_def log_exec_def
      puts_of_def Let_def numeral_2_eq_2)

lemma ab_marshal:
  assumes "epochs_at ab_protobuf m request = Some old"
  shows "\<exists>b. Marshal (pb_EpochInfoList ab_protobuf) (mergeEpochs ab_protobuf (eil_Epochs old) [epoch_named ''b'']) = Inr b"
  using assms
  by (auto simp: message_at_def ab_protobuf_def table_codec_def mergeEpochs_def epoch_named_def
      split: option.splits sum.splits if_splits)

theorem saveEpochs_no_lost_update_witness:
  "\<exists>s1 s2 old new. busy_env ab_before s1
      \<and> epochs_at ab_protobuf (log_store (busy_log s1)) (oct_request None) = Some old
      \<and> epochs_at ab_protobuf (log_store (busy_log s2)) (oct_request None) = Some new \<and> busy_env s2 ab_after
      \<and> set (eil_Epochs new) = set [epoch_named ''b''] \<union> set (eil_Epochs old)
      \<and> (\<forall>k. k \<noteq> epochs_key (oct_request None) \<longrightarrow> log_store (busy_log s2) k = log_store (busy_log s1) k)"
proof (rule saveEpochs_no_lost_update [OF busy_etcd.etcd_service_axioms ab_runtime.protobuf_runtime_axioms ab_update])
  fix s1 old
  assume "epochs_at ab_protobuf (log_store (busy_log s1)) (oct_request None) = Some old"
  then show "\<exists>b. Marshal (pb_EpochInfoList ab_protobuf)
      (mergeEpochs ab_protobuf (eil_Epochs old) [epoch_named ''b'']) = Inr b"
    by (rule ab_marshal)
next
  fix s1 assume "busy_env ab_before s1"
  then show "log_store (busy_log s1) (epochs_key (oct_request None)) \<noteq> None"
    using log_store_append_kept [of "[[(epochs_key (oct_request None), ''a'')]]"] by (auto simp: busy_env_def)
qed

text \<open>
  C26: the first admissions of a dataset do race.  The list is created with an unconditional put:
  when another client creates the list between the read and that put, the call still succeeds and
  leaves only its own epochs, for every protobuf runtime that can encode both lists.
\<close>

theorem saveEpochs_create_race:
  assumes "protobuf_runtime P"
    and "Marshal (pb_EpochInfoList P) \<lparr>eil_Epochs = others\<rparr> = Inr b"
    and "Marshal (pb_EpochInfoList P) \<lparr>eil_Epochs = epochs\<rparr> = Inr b'"
  shows "\<exists>s'. saveEpochs P busy_client request epochs
        \<lparr>busy_log = [], busy_others = [[], [[(epochs_key request, b)]]]\<rparr> = (Ok (), s')
    \<and> busy_log s' = [[(epochs_key request, b')], [(epochs_key request, b)]]
    \<and> epochs_at P (log_store [[(epochs_key request, b)]]) request = Some \<lparr>eil_Epochs = others\<rparr>
    \<and> epochs_at P (log_store (busy_log s')) request = Some \<lparr>eil_Epochs = epochs\<rparr>"
  using assms(2,3) message_codec.Unmarshal_Marshal [OF protobuf_runtime.epochs_codec [OF assms(1)]]
  by (simp add: saveEpochs_def GetProtoMessage_def PutProtoMessage_def busy_client_def busy_lift_def
      busy_arrive_def log_client_def log_exec_def puts_of_def message_at_def)

theorem saveEpochs_create_race_witness:
  "\<exists>s'. saveEpochs ab_protobuf busy_client (oct_request None) [epoch_named ''b'']
        \<lparr>busy_log = [], busy_others = [[], [[(epochs_key (oct_request None), ''a'')]]]\<rparr> = (Ok (), s')
    \<and> epochs_at ab_protobuf (log_store (busy_log s')) (oct_request None) = Some \<lparr>eil_Epochs = [epoch_named ''b'']\<rparr>"
  using saveEpochs_create_race [OF ab_runtime.protobuf_runtime_axioms, of "[epoch_named ''a'']" "''a''"
      "[epoch_named ''b'']" "''b''" "oct_request None"]
  by (auto simp: ab_protobuf_def table_codec_def epoch_named_def)

text \<open>
  C2: an accepted admission has stored what it reports, where no other client writes at the same time
  and the merged list can be encoded.  The reply carries the epochs the generator made, the tenant
  has a quota that these epochs of the one request do not exceed, and the stored list is the old one
  together with them.  What was stored before does not count towards the quota.
\<close>

theorem AdmitDataset_accepted_stored:
  assumes "etcd_alone (ms_etcdClient m) store env" and "protobuf_runtime P"
    and "AdmitDataset P m request s = Some (Reply resp, s')" and "arr_Status resp = ADMIT_ACCEPTED"
    and "\<And>old es. epochs_at P (store s) request = Some old \<Longrightarrow> GenerateEpochs (pb_timestamppb P) request = Some (Ok es) \<Longrightarrow>
          \<exists>b. Marshal (pb_EpochInfoList P) (mergeEpochs P (eil_Epochs old) es) = Inr b"
  shows "\<exists>es quota l. GenerateEpochs (pb_timestamppb P) request = Some (Ok es)
    \<and> arr_Epochs resp = Some \<lparr>eil_Epochs = es\<rparr>
    \<and> message_at (pb_TenantQuota P) (store s) (EtcdTenantQuotaKey (ar_TenantId request)) = Some quota
    \<and> \<not> exceedsQuota quota es
    \<and> epochs_at P (store s') request = Some l
    \<and> set (eil_Epochs l) = set es \<union> (case epochs_at P (store s) request of None \<Rightarrow> {} | Some old \<Rightarrow> set (eil_Epochs old))"
  using assms(3,4)
proof (cases rule: AdmitDataset_accepted_cases)
  case (1 quota rsp s1 es)
  have "\<exists>l. epochs_at P (store s') request = Some l \<and>
      set (eil_Epochs l) = set es \<union> (case epochs_at P (store s) request of None \<Rightarrow> {} | Some old \<Rightarrow> set (eil_Epochs old))"
    using AdmitDataset_accepted_effect [OF assms(1-4) 1(4) assms(5)] 1(4)
    by (auto simp: protobuf_runtime.mergeEpochs_set [OF assms(2)] split: option.splits if_splits dest: mset_eq_setD)
  with 1 etcd_alone.GetProtoMessage_alone(2) [OF assms(1) 1(3)] show ?thesis by auto
qed

theorem AdmitDataset_accepted_stored_witness:
  "\<exists>es quota l. GenerateEpochs unix_codec (oct_request None) = Some (Ok es)
    \<and> message_at (pb_TenantQuota acme_protobuf) (log_store acme_store) (EtcdTenantQuotaKey ''acme'') = Some quota
    \<and> \<not> exceedsQuota quota es
    \<and> epochs_at acme_protobuf (log_store acme_admitted) (oct_request None) = Some l
    \<and> set (eil_Epochs l) = set es"
proof -
  have etcd: "etcd_alone (ms_etcdClient acme_service) log_store (=)"
    using log_etcd.etcd_alone_axioms by (simp add: acme_service_def)
  have none: "epochs_at acme_protobuf (log_store acme_store) (oct_request None) = None"
    by (simp add: message_at_def acme_store_def EtcdTenantQuotaKey_def EtcdTenantDatasetEpochKey_def oct_request_def)
  show ?thesis
    using AdmitDataset_accepted_stored [OF etcd acme_runtime.protobuf_runtime_axioms acme_first]
    by (simp add: none accepted_def) (auto simp: acme_protobuf_def oct_request_def)
qed

text \<open>
  C27: admitting the same request a second time changes nothing in the stored epoch list.
\<close>

theorem AdmitDataset_idempotent:
  assumes "etcd_alone (ms_etcdClient m) store env" and "protobuf_runtime P"
    and "AdmitDataset P m request s = Some (Reply resp, s')" and "arr_Status resp = ADMIT_ACCEPTED"
    and "AdmitDataset P m request s' = Some (Reply resp', s'')" and "arr_Status resp' = ADMIT_ACCEPTED"
    and "\<And>old es. epochs_at P (store s) request = Some old \<Longrightarrow> GenerateEpochs (pb_timestamppb P) request = Some (Ok es) \<Longrightarrow>
          \<exists>b. Marshal (pb_EpochInfoList P) (mergeEpochs P (eil_Epochs old) es) = Inr b"
  shows "epochs_at P (store s'') request = epochs_at P (store s') request"
  using assms(3,4)
proof (cases rule: AdmitDataset_accepted_cases)
  case (1 quota rsp s1 es)
  note first = AdmitDataset_accepted_effect [OF assms(1-4) 1(4) assms(7)]
  have merged: "old = mergeEpochs P (eil_Epochs old') es"
    if "epochs_at P (store s') request = Some old" "mset (eil_Epochs old) \<noteq> mset es"
      "epochs_at P (store s) request = Some old'" for old old'
    using first 1(4) that by (auto split: if_splits)
  have some: "mset (eil_Epochs old) = mset es" if "epochs_at P (store s') request = Some old"
      "epochs_at P (store s) request = None" for old
    using first 1(4) that by auto
  have again: "mergeEpochs P (eil_Epochs old) es = old \<and> (\<exists>b. Marshal (pb_EpochInfoList P) old = Inr b)"
    if "epochs_at P (store s') request = Some old" "mset (eil_Epochs old) \<noteq> mset es" for old
    using merged some assms(7) [OF _ 1(4)] protobuf_runtime.mergeEpochs_again [OF assms(2)] that
    by (metis option.exhaust)
  from AdmitDataset_accepted_effect [OF assms(1,2,5,6) 1(4)] again first 1(4) show ?thesis
    by (auto split: option.splits if_splits)
qed

lemma acme_etcd: "etcd_alone (ms_etcdClient acme_service) log_store (=)"
  using log_etcd.etcd_alone_axioms by (simp add: acme_service_def)

theorem AdmitDataset_idempotent_witness:
  "epochs_at acme_protobuf (log_store (acme_merged 2)) (oct_request None) =
   epochs_at acme_protobuf (log_store (acme_merged 1)) (oct_request None)"
proof (rule AdmitDataset_idempotent [OF acme_etcd acme_runtime.protobuf_runtime_axioms acme_again(1) _ acme_again(2)])
  fix old es
  assume "epochs_at acme_protobuf (log_store acme_old) (oct_request None) = Some old"
    and "GenerateEpochs (pb_timestamppb acme_protobuf) (oct_request None) = Some (Ok es)"
  then have "old = \<lparr>eil_Epochs = [epoch_named ''a'']\<rparr>" "es = oct_epochs"
    by (simp_all add: message_at_def acme_old_def acme_protobuf_def table_codec_def oct_request_def
        oct_request_epochs [unfolded oct_request_def])
  then show "\<exists>b. Marshal (pb_EpochInfoList acme_protobuf) (mergeEpochs acme_protobuf (eil_Epochs old) es) = Inr b"
    using epoch_named_fresh by (simp add: acme_merge) (simp add: acme_protobuf_def table_codec_def)
qed (simp_all add: accepted_def)

text \<open>An admission ends before it saves its epochs, or with what saving them returns.\<close>

lemma AdmitDataset_save_cases:
  assumes "AdmitDataset P m request s = Some (r, s')"
    and "GetProtoMessage (pb_TenantQuota P) (ms_etcdClient m) (EtcdTenantQuotaKey (ar_TenantId request))
      \<lparr>tq_TenantId = '''', tq_MaxDatasets = 0, tq_MaxEpochs = 0, tq_MaxStorageMb = 0\<rparr> s = ((quota, rsp, err), s1)"
  obtains (early) "s' = s \<or> s' = s1"
    | (save) es res where "saveEpochs P (ms_etcdClient m) request es s1 = (res, s')"
      "case res of Ok _ \<Rightarrow> \<exists>resp. r = Reply resp \<and> arr_Status resp = ADMIT_ACCEPTED
         | Err e \<Rightarrow> r = Fail (PlainError e) | Panic p \<Rightarrow> r = Crash p"
proof -
  have "s' = s \<or> s' = s1 \<or> (\<exists>es res. saveEpochs P (ms_etcdClient m) request es s1 = (res, s')
      \<and> (case res of Ok _ \<Rightarrow> \<exists>resp. r = Reply resp \<and> arr_Status resp = ADMIT_ACCEPTED
         | Err e \<Rightarrow> r = Fail (PlainError e) | Panic p \<Rightarrow> r = Crash p))"
    using assms by (fastforce simp: AdmitDataset_def split: option.splits outcome.splits if_splits prod.splits)
  then show thesis using early save by blast
qed

text \<open>
  C28: what an admission may write, where no other client writes at the same time.  It writes at most
  the epoch list of its dataset.  If it is not accepted, whether by a reply, an error or a panic, it
  has written nothing, with one exception: the call failed with an error, and the list has been
  written nevertheless, as an etcd request that reports an error may have been carried out.
\<close>

theorem AdmitDataset_frame:
  assumes "etcd_alone (ms_etcdClient m) store env" and "AdmitDataset P m request s = Some (r, s')"
  shows "(\<forall>k. k \<noteq> epochs_key request \<longrightarrow> store s' k = store s k)
    \<and> (\<not> (\<exists>resp. r = Reply resp \<and> arr_Status resp = ADMIT_ACCEPTED) \<longrightarrow>
        store s' = store s
        \<or> (\<exists>e mrev b. r = Fail (PlainError e) \<and> store s' = exec_ops mrev [OpPut (epochs_key request) b] (store s)))"
proof -
  obtain quota rsp err s1 where get: "GetProtoMessage (pb_TenantQuota P) (ms_etcdClient m)
      (EtcdTenantQuotaKey (ar_TenantId request))
      \<lparr>tq_TenantId = '''', tq_MaxDatasets = 0, tq_MaxEpochs = 0, tq_MaxStorageMb = 0\<rparr> s = ((quota, rsp, err), s1)"
    by (metis surj_pair)
  have s1: "store s1 = store s" by (rule etcd_alone.GetProtoMessage_alone(1) [OF assms(1) get])
  from assms(2) get show ?thesis
  proof (cases rule: AdmitDataset_save_cases)
    case early
    with s1 show ?thesis by auto
  next
    case (save es res)
    have "store s' k = store s k" if "k \<noteq> epochs_key request" for k
      using etcd_alone.saveEpochs_frame [OF assms(1) save(1) that] s1 by simp
    moreover have "store s' = store s
        \<or> (\<exists>e mrev b. r = Fail (PlainError e) \<and> store s' = exec_ops mrev [OpPut (epochs_key request) b] (store s))"
      if "\<not> (\<exists>resp. r = Reply resp \<and> arr_Status resp = ADMIT_ACCEPTED)"
    proof -
      have "res \<noteq> Ok ()" "\<And>e. res = Err e \<Longrightarrow> r = Fail (PlainError e)" using save(2) that by auto
      then show ?thesis using etcd_alone.saveEpochs_failed [OF assms(1) save(1)] s1 by metis
    qed
    ultimately show ?thesis by blast
  qed
qed

theorem AdmitDataset_frame_witness:
  "log_store acme_admitted (EtcdTenantQuotaKey ''acme'') = log_store acme_store (EtcdTenantQuotaKey ''acme'')"
  using AdmitDataset_frame [OF acme_etcd acme_first]
  by (simp add: EtcdTenantQuotaKey_def EtcdTenantDatasetEpochKey_def oct_request_def)

text \<open>
  The quota check bounds one request: where the quota is positive and the number of epochs
  fits 32 bits, the epochs of an accepted request are at most as many as the quota allows.
\<close>

lemma AdmitDataset_quota_bound:
  assumes "etcd_alone (ms_etcdClient m) store env"
    and "AdmitDataset P m request s = Some (Reply resp, s')" and "arr_Status resp = ADMIT_ACCEPTED"
    and "message_at (pb_TenantQuota P) (store s) (EtcdTenantQuotaKey (ar_TenantId request)) = Some quota"
    and "0 < sint (tq_MaxEpochs quota)"
    and "GenerateEpochs (pb_timestamppb P) request = Some (Ok es)" and "length es < 2 ^ 31"
  shows "int (length es) \<le> sint (tq_MaxEpochs quota)"
  using assms(2,3)
proof (cases rule: AdmitDataset_accepted_cases)
  case (1 quota' rsp s1 es')
  have "quota' = quota" and "es' = es"
    using etcd_alone.GetProtoMessage_alone(2) [OF assms(1) 1(3)] assms(4,6) 1(4) by simp_all
  moreover have "sint (of_nat (length es) :: 32 word) = int (length es)"
  proof -
    have "sint (word_of_int (int (length es)) :: 32 word) = signed_take_bit 31 (int (length es))"
      by (simp only: sint_sbintrunc') simp
    also have "\<dots> = int (length es)" by (rule signed_take_bit_int_eq_self) (use assms(7) in auto)
    finally show ?thesis by simp
  qed
  ultimately show ?thesis using 1(5) assms(5) by (simp add: exceedsQuota_def)
qed

lemma AdmitDataset_quota_bound_witness: "int (length oct_epochs) \<le> sint (tq_MaxEpochs acme_quota)"
proof (rule AdmitDataset_quota_bound [OF acme_etcd acme_first])
  show "message_at (pb_TenantQuota acme_protobuf) (log_store acme_store)
      (EtcdTenantQuotaKey (ar_TenantId (oct_request None))) = Some acme_quota"
    by (simp add: message_at_def acme_store_def acme_protobuf_def table_codec_def oct_request_def)
qed (simp_all add: accepted_def acme_quota_def acme_protobuf_def oct_request_epochs)

text \<open>
  C29: a quota reads back as it was written: after an \<open>UpsertTenantQuota\<close> that reports success, the
  store holds exactly the request under the tenant's key; the request names a tenant and has no
  negative limit.  Every other reply leaves the store as it was.
\<close>

theorem UpsertTenantQuota_roundtrip:
  assumes "etcd_alone (ms_etcdClient m) store env" and "protobuf_runtime P"
    and "UpsertTenantQuota P m request s = (Reply resp, s')"
  shows "if cr_Status resp = STATUS_SUCCESS
    then message_at (pb_TenantQuota P) (store s') (EtcdTenantQuotaKey (tq_TenantId request)) = Some request
      \<and> tq_TenantId request \<noteq> '''' \<and> 0 \<le> sint (tq_MaxEpochs request)
      \<and> 0 \<le> sint (tq_MaxDatasets request) \<and> 0 \<le> sint (tq_MaxStorageMb request)
    else store s' = store s"
  using assms(3) etcd_alone.PutProtoMessage_alone [OF assms(1) _ protobuf_runtime.quota_codec [OF assms(2)]]
  by (auto simp: UpsertTenantQuota_def split: option.splits if_splits prod.splits sum.splits)

theorem UpsertTenantQuota_roundtrip_witness:
  "\<exists>s'. UpsertTenantQuota acme_protobuf acme_service acme_quota [] = (Reply \<lparr>cr_Status = STATUS_SUCCESS, cr_Message = ''''\<rparr>, s')
    \<and> message_at (pb_TenantQuota acme_protobuf) (log_store s') (EtcdTenantQuotaKey ''acme'') = Some acme_quota"
proof -
  have "UpsertTenantQuota acme_protobuf acme_service acme_quota [] =
      (Reply \<lparr>cr_Status = STATUS_SUCCESS, cr_Message = ''''\<rparr>, log_exec [OpPut (EtcdTenantQuotaKey ''acme'') ''quota''] [])"
    by (simp add: UpsertTenantQuota_def acme_service_def PutProtoMessage_def acme_protobuf_def table_codec_def
        log_client_def) (simp add: acme_quota_def)
  from this UpsertTenantQuota_roundtrip [OF acme_etcd acme_runtime.protobuf_runtime_axioms this]
  show ?thesis by (simp add: acme_quota_def)
qed

text \<open>
  A node that is not the leader serves neither call and does not touch the store; the caller
  learns whether there is a leader to turn to.
\<close>

lemma management_requires_leader:
  assumes "ms_leadership m = Some lp" and "\<not> lp_IsLeader lp"
  shows "\<exists>msg. AdmitDataset P m request s =
        Some (Fail (StatusError (if lp_LeaderName lp = '''' then Unavailable else FailedPrecondition) msg), s)
      \<and> UpsertTenantQuota P m quota s =
        (Fail (StatusError (if lp_LeaderName lp = '''' then Unavailable else FailedPrecondition) msg), s)"
  using assms by (simp add: AdmitDataset_def UpsertTenantQuota_def requireLeader_def Let_def)

lemma management_requires_leader_witness:
  "\<exists>msg. AdmitDataset acme_protobuf
      (acme_service\<lparr>ms_leadership := Some \<lparr>lp_IsLeader = False, lp_LeaderName = ''node2''\<rparr>\<rparr>) (oct_request None) [] =
     Some (Fail (StatusError FailedPrecondition msg), [])"
  using management_requires_leader
    [of "acme_service\<lparr>ms_leadership := Some \<lparr>lp_IsLeader = False, lp_LeaderName = ''node2''\<rparr>\<rparr>"
        "\<lparr>lp_IsLeader = False, lp_LeaderName = ''node2''\<rparr>" acme_protobuf "oct_request None" "[]" acme_quota]
  by auto

end
