(* ===== verification/Session.thy ===== *)
theory Session
  imports Leibrix_Prelude
begin

text \<open>
  \<open>internal/api/grpc/events/session.go\<close>: the outgoing half of a worker's stream.  Senders put
  messages into a bounded channel, one writer goroutine takes them out and gives them to the
  stream, and \<open>Close\<close> may be called by anyone at any time.

  The operations are functions on a session record.  Where a \<open>select\<close> has several ready cases, Go
  picks one of them: \<open>SendSelect\<close> lists the outcomes of the ready cases (no outcome: the call
  blocks) and \<open>Send\<close> takes the pick as an argument.  How senders, closers and the writer
  interleave is the step relation \<open>session_step\<close>, whose states also record which messages were
  accepted and which were handed to the stream.
\<close>

subsection \<open>Operations\<close>

abbreviation DefaultSessionOutboxSize :: nat where "DefaultSessionOutboxSize \<equiv> 1024"

record 'm Session =
  ss_ServerId :: string
  ss_ctxErr :: "go_error option"
  ss_outbox :: "'m list"
  ss_outboxClosed :: bool
  ss_closed :: bool

text \<open>\<open>ss_ctxErr\<close> is the error of the session's context, which is done when there is one.\<close>

definition NewSession :: "go_error option \<Rightarrow> string \<Rightarrow> 'm Session" where
  "NewSession parentErr serverId =
     \<lparr>ss_ServerId = serverId, ss_ctxErr = parentErr, ss_outbox = [], ss_outboxClosed = False, ss_closed = False\<rparr>"

text \<open>Sending on the closed channel panics, and the deferred function turns the panic into an error.\<close>

definition SendSelect :: "'m \<Rightarrow> 'm Session \<Rightarrow> (go_error option \<times> 'm Session) list" where
  "SendSelect msg s =
     (if ss_outboxClosed s then [(Some ''session closed'', s)]
      else if length (ss_outbox s) < DefaultSessionOutboxSize then [(None, s\<lparr>ss_outbox := ss_outbox s @ [msg]\<rparr>)]
      else [])
     @ (case ss_ctxErr s of None \<Rightarrow> [] | Some e \<Rightarrow> [(Some (''session closed: '' @ e), s)])"

definition select_case :: "nat \<Rightarrow> 'a list \<Rightarrow> 'a option" where
  "select_case pick outcomes = (if outcomes = [] then None else Some (outcomes ! (pick mod length outcomes)))"

definition Send :: "nat \<Rightarrow> 'm \<Rightarrow> 'm Session \<Rightarrow> (go_error option \<times> 'm Session) option" where
  "Send pick msg s =
     (if ss_closed s then Some (Some ''session closed'', s)
      else select_case pick (SendSelect msg s))"

definition cancel :: "go_error \<Rightarrow> 'm Session \<Rightarrow> 'm Session" where
  "cancel e s = s\<lparr>ss_ctxErr := (case ss_ctxErr s of None \<Rightarrow> Some e | Some e' \<Rightarrow> Some e')\<rparr>"

definition closeOutbox :: "'m Session \<Rightarrow> 'm Session outcome" where
  "closeOutbox s =
     (if ss_outboxClosed s then Panic ''close of closed channel'' else Ok (s\<lparr>ss_outboxClosed := True\<rparr>))"

definition Close :: "'m Session \<Rightarrow> 'm Session outcome" where
  "Close s =
     (if \<not> ss_closed s
      then closeOutbox (cancel ''context canceled'' (s\<lparr>ss_closed := True\<rparr>))
      else Ok s)"

text \<open>
  \<open>drainOutbox\<close> hands over what is in the channel without waiting for more; the argument says after
  how many messages the timer's case is picked, if it is.  The result is what was handed to the
  stream and what is left.
\<close>

fun drainOutbox :: "nat option \<Rightarrow> 'm list \<Rightarrow> 'm list \<times> 'm list" where
  "drainOutbox timeout [] = ([], [])"
| "drainOutbox (Some 0) (m # ms) = ([], m # ms)"
| "drainOutbox (Some (Suc n)) (m # ms) = (case drainOutbox (Some n) ms of (handed, left) \<Rightarrow> (m # handed, left))"
| "drainOutbox None (m # ms) = (case drainOutbox None ms of (handed, left) \<Rightarrow> (m # handed, left))"

subsection \<open>All goroutines of a session\<close>

datatype writer_pc = WriterSelect | WriterDraining | WriterFailed | WriterReturned

datatype closer_pc = CloserNone | CloserWon | CloserCancelled | CloserFinished

record 'm session_run =
  sr_session :: "'m Session"
  sr_writer :: writer_pc
  sr_closer :: closer_pc
  sr_accepted :: "'m list"
  sr_handed :: "'m list"
  sr_panicked :: bool

definition session_start :: "'m session_run \<Rightarrow> bool" where
  "session_start r \<longleftrightarrow> (\<exists>parentErr serverId. r =
     \<lparr>sr_session = NewSession parentErr serverId, sr_writer = WriterSelect, sr_closer = CloserNone,
      sr_accepted = [], sr_handed = [], sr_panicked = False\<rparr>)"

text \<open>
  The three actions of \<open>Close\<close> (winning the compare-and-swap, cancelling the context, closing the
  channel) are separate steps, and a sender that has read the flag before it was set may still be
  in its \<open>select\<close>.  The writer's loop and \<open>drainOutbox\<close> are one step for each case of their
  \<open>select\<close>; the stream may refuse any message.
\<close>

inductive session_step :: "'m session_run \<Rightarrow> 'm session_run \<Rightarrow> bool" where
  send: "session_step r (r\<lparr>sr_session := s', sr_accepted := sr_accepted r @ [msg]\<rparr>)"
    if "(None, s') \<in> set (SendSelect msg (sr_session r))"
| parent_done: "session_step r (r\<lparr>sr_session := cancel e (sr_session r)\<rparr>)"
    if "ss_ctxErr (sr_session r) = None"
| close_swap: "session_step r (r\<lparr>sr_session := (sr_session r)\<lparr>ss_closed := True\<rparr>, sr_closer := CloserWon\<rparr>)"
    if "\<not> ss_closed (sr_session r)"
| close_cancel: "session_step r (r\<lparr>sr_session := cancel ''context canceled'' (sr_session r), sr_closer := CloserCancelled\<rparr>)"
    if "sr_closer r = CloserWon"
| close_outbox: "session_step r (r\<lparr>sr_session := s', sr_closer := CloserFinished\<rparr>)"
    if "sr_closer r = CloserCancelled" and "closeOutbox (sr_session r) = Ok s'"
| close_panic: "session_step r (r\<lparr>sr_panicked := True, sr_closer := CloserFinished\<rparr>)"
    if "sr_closer r = CloserCancelled" and "closeOutbox (sr_session r) = Panic p"
| writer_done: "session_step r (r\<lparr>sr_writer := WriterDraining\<rparr>)"
    if "sr_writer r = WriterSelect" and "ss_ctxErr (sr_session r) \<noteq> None"
| writer_send: "session_step r (r\<lparr>sr_session := (sr_session r)\<lparr>ss_outbox := ms\<rparr>, sr_handed := sr_handed r @ [m], sr_writer := w\<rparr>)"
    if "sr_writer r = WriterSelect" and "ss_outbox (sr_session r) = m # ms" and "w \<in> {WriterSelect, WriterFailed}"
| writer_closed: "session_step r (r\<lparr>sr_writer := WriterReturned\<rparr>)"
    if "sr_writer r = WriterSelect" and "ss_outbox (sr_session r) = []" and "ss_outboxClosed (sr_session r)"
| writer_failed: "session_step r (r\<lparr>sr_writer := WriterReturned\<rparr>)"
    if "sr_writer r = WriterFailed" and "ss_closed (sr_session r)"
| drain_send: "session_step r (r\<lparr>sr_session := (sr_session r)\<lparr>ss_outbox := ms\<rparr>, sr_handed := sr_handed r @ [m]\<rparr>)"
    if "sr_writer r = WriterDraining" and "ss_outbox (sr_session r) = m # ms"
| drain_return: "session_step r (r\<lparr>sr_writer := WriterReturned\<rparr>)"
    if "sr_writer r = WriterDraining"

subsection \<open>Lemmas\<close>

lemma select_case_mem: "select_case pick outcomes = Some x \<Longrightarrow> x \<in> set outcomes"
  by (auto simp: select_case_def split: if_splits)

lemma SendSelect_accepts: "(None, s') \<in> set (SendSelect msg s) \<longleftrightarrow>
    \<not> ss_outboxClosed s \<and> length (ss_outbox s) < DefaultSessionOutboxSize \<and> s' = s\<lparr>ss_outbox := ss_outbox s @ [msg]\<rparr>"
  by (auto simp: SendSelect_def split: option.splits)

lemma Send_effect:
  assumes "Send pick msg s = Some (err, s')"
  shows "s' = (if err = None then s\<lparr>ss_outbox := ss_outbox s @ [msg]\<rparr> else s)"
proof (cases "ss_closed s")
  case False
  with assms have "(err, s') \<in> set (SendSelect msg s)" by (simp add: Send_def select_case_mem)
  then show ?thesis by (auto simp: SendSelect_def split: option.splits if_splits)
qed (use assms in \<open>auto simp: Send_def\<close>)

lemma cancel_simps [simp]:
  "ss_ctxErr (cancel e s) \<noteq> None" "ss_outbox (cancel e s) = ss_outbox s"
  "ss_outboxClosed (cancel e s) = ss_outboxClosed s" "ss_closed (cancel e s) = ss_closed s"
  by (simp_all add: cancel_def split: option.splits)

text \<open>The invariant of a session: first in, first out, within the bound, and one closer at most.\<close>

definition session_inv :: "'m session_run \<Rightarrow> bool" where
  "session_inv r \<longleftrightarrow>
     sr_accepted r = sr_handed r @ ss_outbox (sr_session r)
     \<and> length (ss_outbox (sr_session r)) \<le> DefaultSessionOutboxSize
     \<and> (ss_closed (sr_session r) \<longleftrightarrow> sr_closer r \<noteq> CloserNone)
     \<and> (ss_outboxClosed (sr_session r) \<longleftrightarrow> sr_closer r = CloserFinished)
     \<and> (sr_closer r \<in> {CloserCancelled, CloserFinished} \<longrightarrow> ss_ctxErr (sr_session r) \<noteq> None)
     \<and> \<not> sr_panicked r"

lemma session_inv_step: "session_step r r' \<Longrightarrow> session_inv r \<Longrightarrow> session_inv r'"
  by (induction rule: session_step.induct)
     (auto simp: session_inv_def SendSelect_accepts closeOutbox_def split: if_splits)

lemma session_reachable_inv: "reachable session_start session_step r \<Longrightarrow> session_inv r"
  by (erule reachable_invariant)
     (auto simp: session_inv_step, auto simp: session_start_def session_inv_def NewSession_def)

lemma drainOutbox_split: "drainOutbox t ms = (handed, left) \<Longrightarrow> ms = handed @ left"
  by (induction t ms arbitrary: handed left rule: drainOutbox.induct) (auto split: prod.splits)

lemma drainOutbox_all: "drainOutbox None ms = (ms, [])"
  by (induction ms) simp_all

subsection \<open>Properties\<close>

text \<open>An example run: two messages are sent, one is handed over, and the session is closed.\<close>

definition ab_session :: "string Session" where
  "ab_session = \<lparr>ss_ServerId = ''node1'', ss_ctxErr = Some ''context canceled'', ss_outbox = [''b''],
     ss_outboxClosed = True, ss_closed = True\<rparr>"

definition ab_run :: "string session_run" where
  "ab_run = \<lparr>sr_session = ab_session, sr_writer = WriterSelect, sr_closer = CloserFinished,
     sr_accepted = [''a'', ''b''], sr_handed = [''a''], sr_panicked = False\<rparr>"

lemma ab_run_reachable: "reachable session_start session_step ab_run"
proof -
  let ?r = "\<lambda>s w c as hs. \<lparr>sr_session = s, sr_writer = w, sr_closer = c, sr_accepted = as, sr_handed = hs, sr_panicked = False\<rparr>"
  let ?s = "\<lambda>e ms oc c. \<lparr>ss_ServerId = ''node1'', ss_ctxErr = e, ss_outbox = ms, ss_outboxClosed = oc, ss_closed = c\<rparr>"
  have "session_start (?r (?s None [] False False) WriterSelect CloserNone [] [])"
    by (auto simp: session_start_def NewSession_def)
  then have "reachable session_start session_step (?r (?s None [] False False) WriterSelect CloserNone [] [])"
    by (rule reachable_init)
  then have "reachable session_start session_step (?r (?s None [''a''] False False) WriterSelect CloserNone [''a''] [])"
    by (rule reachable_step) (use session_step.send [of "?s None [''a''] False False" "''a''"
      "?r (?s None [] False False) WriterSelect CloserNone [] []"] in \<open>simp add: SendSelect_accepts\<close>)
  then have "reachable session_start session_step (?r (?s None [''a'', ''b''] False False) WriterSelect CloserNone [''a'', ''b''] [])"
    by (rule reachable_step) (use session_step.send [of "?s None [''a'', ''b''] False False" "''b''"
      "?r (?s None [''a''] False False) WriterSelect CloserNone [''a''] []"] in \<open>simp add: SendSelect_accepts\<close>)
  then have "reachable session_start session_step (?r (?s None [''b''] False False) WriterSelect CloserNone [''a'', ''b''] [''a''])"
    by (rule reachable_step) (use session_step.writer_send [of
      "?r (?s None [''a'', ''b''] False False) WriterSelect CloserNone [''a'', ''b''] []" "''a''" "[''b'']" WriterSelect] in simp)
  then have "reachable session_start session_step (?r (?s None [''b''] False True) WriterSelect CloserWon [''a'', ''b''] [''a''])"
    by (rule reachable_step) (use session_step.close_swap [of
      "?r (?s None [''b''] False False) WriterSelect CloserNone [''a'', ''b''] [''a'']"] in simp)
  then have "reachable session_start session_step (?r (?s (Some ''context canceled'') [''b''] False True) WriterSelect CloserCancelled [''a'', ''b''] [''a''])"
    by (rule reachable_step) (use session_step.close_cancel [of
      "?r (?s None [''b''] False True) WriterSelect CloserWon [''a'', ''b''] [''a'']"] in \<open>simp add: cancel_def\<close>)
  then have "reachable session_start session_step (?r (?s (Some ''context canceled'') [''b''] True True) WriterSelect CloserFinished [''a'', ''b''] [''a''])"
    by (rule reachable_step) (use session_step.close_outbox [of
      "?r (?s (Some ''context canceled'') [''b''] False True) WriterSelect CloserCancelled [''a'', ''b''] [''a'']"] in \<open>simp add: closeOutbox_def\<close>)
  then show ?thesis by (simp add: ab_run_def ab_session_def)
qed

text \<open>
  C6: in every interleaving of senders, closers and the writer, the messages handed to the stream
  are the accepted ones in the order of acceptance, without loss, repetition or overtaking: what is
  not handed over yet is still in the channel.  The channel stays within its bound and is never
  closed twice, so that closing never panics.
\<close>

theorem session_fifo:
  assumes "reachable session_start session_step r"
  shows "sr_accepted r = sr_handed r @ ss_outbox (sr_session r)
    \<and> length (ss_outbox (sr_session r)) \<le> DefaultSessionOutboxSize \<and> \<not> sr_panicked r"
  using session_reachable_inv [OF assms] by (simp add: session_inv_def)

theorem session_fifo_witness: "sr_accepted ab_run = sr_handed ab_run @ ss_outbox (sr_session ab_run)"
  using session_fifo [OF ab_run_reachable] by simp

text \<open>
  \<open>Close\<close> is final.  Once it has closed the channel no interleaving accepts another message or
  opens the channel again, every \<open>Send\<close> fails at once without changing the session, and further
  calls of \<open>Close\<close> change nothing.
\<close>

lemma session_closed_for_good:
  assumes "reachable session_start session_step r" and "ss_outboxClosed (sr_session r)" and "session_step r r'"
  shows "sr_accepted r' = sr_accepted r \<and> ss_outboxClosed (sr_session r')
    \<and> Send pick msg (sr_session r) = Some (Some ''session closed'', sr_session r)
    \<and> Close (sr_session r) = Ok (sr_session r)"
  using assms(3,2) session_reachable_inv [OF assms(1)]
  by (induction rule: session_step.induct)
     (auto simp: SendSelect_accepts session_inv_def closeOutbox_def Send_def Close_def)

lemma session_closed_for_good_witness:
  "Send 0 ''c'' ab_session = Some (Some ''session closed'', ab_session)"
proof -
  have "session_step ab_run (ab_run\<lparr>sr_writer := WriterDraining\<rparr>)"
    by (rule session_step.writer_done) (simp_all add: ab_run_def ab_session_def)
  from session_closed_for_good [OF ab_run_reachable _ this, of 0 "''c''"]
  show ?thesis by (simp add: ab_run_def ab_session_def)
qed

fun writer_rank :: "writer_pc \<Rightarrow> nat" where
  "writer_rank WriterSelect = 2"
| "writer_rank WriterDraining = 1"
| "writer_rank WriterFailed = 1"
| "writer_rank WriterReturned = 0"

definition session_work :: "'m session_run \<Rightarrow> nat" where
  "session_work r = length (ss_outbox (sr_session r)) + writer_rank (sr_writer r)"

text \<open>
  C30: after \<open>Close\<close> the writer returns.  From such a state every step, whoever makes it, reduces the
  work left (at most two more than the bound of the channel), and as long as the writer has
  not returned some step is possible.
\<close>

theorem session_writer_returns:
  assumes "reachable session_start session_step r" and "ss_outboxClosed (sr_session r)"
  shows "(\<forall>r'. session_step r r' \<longrightarrow> session_work r' < session_work r)
    \<and> ((\<exists>r'. session_step r r') \<or> sr_writer r = WriterReturned)
    \<and> session_work r \<le> DefaultSessionOutboxSize + 2"
proof -
  have inv: "session_inv r" by (rule session_reachable_inv [OF assms(1)])
  have "session_work r' < session_work r" if "session_step r r'" for r'
    using that assms(2) inv
    by (induction rule: session_step.induct)
       (auto simp: SendSelect_accepts session_inv_def closeOutbox_def session_work_def)
  moreover have "(\<exists>r'. session_step r r') \<or> sr_writer r = WriterReturned"
    using inv assms(2) session_step.writer_done [of r] session_step.drain_return [of r] session_step.writer_failed [of r]
    by (cases "sr_writer r") (auto simp: session_inv_def)
  moreover have "writer_rank (sr_writer r) \<le> 2" by (cases "sr_writer r") simp_all
  ultimately show ?thesis using inv by (auto simp: session_work_def session_inv_def)
qed

theorem session_writer_returns_witness: "\<exists>r'. session_step ab_run r' \<and> session_work r' < session_work ab_run"
  using session_writer_returns [OF ab_run_reachable] by (auto simp: ab_run_def ab_session_def)

end
