(* ===== verification/XSync_Map.thy ===== *)
theory XSync_Map
  imports Leibrix_Prelude "HOL-Library.Finite_Map"
begin

text \<open>
  The concurrent map of the package \<open>xsync\<close>, which holds the sessions, the event handlers and the
  state reported by workers.  The package is not part of the repository: its operations are the
  parameter \<open>xmap\<close> of the definitions that use them, and the locale \<open>xsync_map\<close> states what they
  document.  \<open>Range\<close> is represented by the entries it visits.  Finite maps are an instance.
\<close>

record ('k, 'v, 'm) xmap =
  xm_New :: 'm
  xm_Load :: "'m \<Rightarrow> 'k \<Rightarrow> 'v option"
  xm_Store :: "'k \<Rightarrow> 'v \<Rightarrow> 'm \<Rightarrow> 'm"
  xm_LoadAndStore :: "'k \<Rightarrow> 'v \<Rightarrow> 'm \<Rightarrow> 'v option \<times> 'm"
  xm_LoadOrStore :: "'k \<Rightarrow> 'v \<Rightarrow> 'm \<Rightarrow> 'v option \<times> 'm"
  xm_LoadAndDelete :: "'k \<Rightarrow> 'm \<Rightarrow> 'v option \<times> 'm"
  xm_Range :: "'m \<Rightarrow> ('k \<times> 'v) list"
  xm_Clear :: "'m \<Rightarrow> 'm"

locale xsync_map =
  fixes X :: "('k, 'v, 'm) xmap"
  assumes Load_New [simp]: "xm_Load X (xm_New X) = Map.empty"
    and Load_Store [simp]: "xm_Load X (xm_Store X k v m) = (xm_Load X m)(k \<mapsto> v)"
    and LoadAndStore_old [simp]: "fst (xm_LoadAndStore X k v m) = xm_Load X m k"
    and LoadAndStore_new [simp]: "xm_Load X (snd (xm_LoadAndStore X k v m)) = (xm_Load X m)(k \<mapsto> v)"
    and LoadOrStore_old [simp]: "fst (xm_LoadOrStore X k v m) = xm_Load X m k"
    and LoadOrStore_new [simp]: "xm_Load X (snd (xm_LoadOrStore X k v m)) =
          (if xm_Load X m k = None then (xm_Load X m)(k \<mapsto> v) else xm_Load X m)"
    and LoadAndDelete_old [simp]: "fst (xm_LoadAndDelete X k m) = xm_Load X m k"
    and LoadAndDelete_new [simp]: "xm_Load X (snd (xm_LoadAndDelete X k m)) = (xm_Load X m)(k := None)"
    and Range_distinct: "distinct (map fst (xm_Range X m))"
    and Range_map: "map_of (xm_Range X m) = xm_Load X m"
    and Load_Clear [simp]: "xm_Load X (xm_Clear X m) = Map.empty"
begin

lemma LoadAndStore_cases:
  obtains m' where "xm_LoadAndStore X k v m = (xm_Load X m k, m')" "xm_Load X m' = (xm_Load X m)(k \<mapsto> v)"
  by (metis prod.collapse LoadAndStore_old LoadAndStore_new)

lemma LoadOrStore_cases:
  obtains m' where "xm_LoadOrStore X k v m = (xm_Load X m k, m')"
    "xm_Load X m' = (if xm_Load X m k = None then (xm_Load X m)(k \<mapsto> v) else xm_Load X m)"
  by (metis prod.collapse LoadOrStore_old LoadOrStore_new)

lemma LoadAndDelete_cases:
  obtains m' where "xm_LoadAndDelete X k m = (xm_Load X m k, m')" "xm_Load X m' = (xm_Load X m)(k := None)"
  by (metis prod.collapse LoadAndDelete_old LoadAndDelete_new)

lemma finite_dom [simp]: "finite (dom (xm_Load X m))"
  by (simp flip: Range_map add: finite_dom_map_of)

lemma Range_set: "(k, v) \<in> set (xm_Range X m) \<longleftrightarrow> xm_Load X m k = Some v"
  using Range_distinct [of m] by (simp flip: Range_map)

lemma Range_keys: "set (map fst (xm_Range X m)) = dom (xm_Load X m)"
  by (simp flip: Range_map add: dom_map_of_conv_image_fst)

lemma length_Range: "length (xm_Range X m) = card (dom (xm_Load X m))"
  using Range_distinct [of m] by (metis Range_keys distinct_card length_map)

end

definition fmap_xmap :: "('k :: linorder, 'v, ('k, 'v) fmap) xmap" where
  "fmap_xmap =
     \<lparr>xm_New = fmempty,
      xm_Load = fmlookup,
      xm_Store = fmupd,
      xm_LoadAndStore = \<lambda>k v m. (fmlookup m k, fmupd k v m),
      xm_LoadOrStore = \<lambda>k v m. (fmlookup m k, if fmlookup m k = None then fmupd k v m else m),
      xm_LoadAndDelete = \<lambda>k m. (fmlookup m k, fmdrop k m),
      xm_Range = \<lambda>m. map (\<lambda>k. (k, the (fmlookup m k))) (sorted_list_of_fset (fmdom m)),
      xm_Clear = \<lambda>m. fmempty\<rparr>"

lemma fmap_entries: "map_of (map (\<lambda>k. (k, the (fmlookup m k))) (sorted_list_of_fset (fmdom m))) = fmlookup m"
  by (rule map_of_map_keys) (simp add: fmdom.rep_eq)

lemma distinct_keys: "distinct (sorted_list_of_fset S)"
  by (simp add: sorted_list_of_fset.rep_eq)

interpretation fmap_xsync: xsync_map "fmap_xmap :: ('k :: linorder, 'v, ('k, 'v) fmap) xmap"
  by unfold_locales (auto simp: fmap_xmap_def fmap_entries distinct_keys comp_def fun_eq_iff)

lemma fmap_xmap_simps [xmap_simps]:
  "xm_New fmap_xmap = fmempty" "xm_Load fmap_xmap = fmlookup" "xm_Store fmap_xmap = fmupd"
  "xm_LoadAndStore fmap_xmap k v m = (fmlookup m k, fmupd k v m)"
  "xm_LoadOrStore fmap_xmap k v m = (fmlookup m k, if fmlookup m k = None then fmupd k v m else m)"
  "xm_LoadAndDelete fmap_xmap k m = (fmlookup m k, fmdrop k m)"
  "xm_Clear fmap_xmap m = fmempty"
  by (simp_all add: fmap_xmap_def)

end
