(* ===== verification/Control_Types.thy ===== *)
theory Control_Types
  imports Proto_Types
begin

text \<open>
  The messages of \<open>proto/control_plane.proto\<close>, which a worker and the master exchange over one
  stream.  The type variable \<open>'st\<close> stands for \<open>google.protobuf.Struct\<close>, which comes with the
  protobuf library.
\<close>

record Worker =
  w_NodeId :: string
  w_Addr :: string
  w_Labels :: "(string, string) fmap"

record RegisterEvent =
  re_Worker :: "Worker option"

datatype DataPullStatus = PULL_UNKNOWN | PULL_IN_PROGRESS | PULL_COMPLETED | PULL_FAILED | PULL_other "32 word"

record DataPullStatusUpdateEvent =
  dps_DatasetId :: string
  dps_EpochId :: string
  dps_Status :: DataPullStatus
  dps_ErrorMessage :: string

record ResolvedPartition =
  rp_TimeRange :: "TimeRange option"
  rp_TimeColumnName :: string
  rp_TimePartitionValue :: string
  rp_DimensionValues :: "(string, string) fmap"

record LoadPlan =
  lpl_PlanId :: string
  lpl_Source :: "DataSource option"
  lpl_DestinationTableName :: string
  lpl_ArrowSchema :: string
  lpl_ResolvedPartition :: "ResolvedPartition option"

record DataAssignmentEvent =
  da_DatasetId :: string
  da_EpochId :: string
  da_LoadPlan :: "LoadPlan option"

record 'st CommonAckEvent =
  ca_ServerId :: string
  ca_EventType :: string
  ca_Payload :: "'st option"

text \<open>The \<open>oneof\<close> of a stream message; its alternatives are also the messages given to event handlers.\<close>

datatype 'st payload =
  Payload_Register RegisterEvent
  | Payload_Heartbeat
  | Payload_DataPullStatus DataPullStatusUpdateEvent
  | Payload_DataAssignment DataAssignmentEvent
  | Payload_CommonAck "'st CommonAckEvent"

record 'st EventStreamMessage =
  em_EventId :: string
  em_TenantId :: string
  em_WorkerId :: string
  em_Payload :: "'st payload option"

end
