(* ===== verification/Session_Manager.thy ===== *)
theory Session_Manager
  imports Session XSync_Map Control_Types
begin

text \<open>
  \<open>internal/api/grpc/events/session_manager.go\<close>: the sessions of all connected workers.  The
  concurrent map is the parameter \<open>X\<close> of theory \<open>XSync_Map\<close>.  Sessions are shared between the
  manager and the stream handlers, so they live in a heap and the map holds references.  Every
  operation is one atomic step; \<open>structpb.NewStruct\<close> and the clock are parameters.
\<close>

subsection \<open>Messages the manager creates\<close>

datatype go_value = GBool bool | GString string | GInt int

type_synonym 'st new_struct = "(string \<times> go_value) list \<Rightarrow> go_error + 'st"

text \<open>A nil map is \<^term>\<open>None\<close>.\<close>

definition mapToStruct :: "'st new_struct \<Rightarrow> (string \<times> go_value) list option \<Rightarrow> 'st option" where
  "mapToStruct NewStruct m =
     (case m of
        None \<Rightarrow> None
      | Some kvs \<Rightarrow> (case NewStruct kvs of Inl err \<Rightarrow> None | Inr s \<Rightarrow> Some s))"

definition generateEventID :: "int \<Rightarrow> string" where
  "generateEventID now = ''evt_'' @ string_of_int now"

definition CreateCommonAckEvent ::
  "'st new_struct \<Rightarrow> int \<Rightarrow> string \<Rightarrow> string \<Rightarrow> (string \<times> go_value) list option \<Rightarrow> 'st EventStreamMessage" where
  "CreateCommonAckEvent NewStruct now serverID eventType payload =
     \<lparr>em_EventId = generateEventID now, em_TenantId = '''', em_WorkerId = '''',
      em_Payload = Some (Payload_CommonAck
        \<lparr>ca_ServerId = serverID, ca_EventType = eventType, ca_Payload = mapToStruct NewStruct payload\<rparr>)\<rparr>"

subsection \<open>The manager\<close>

type_synonym session_ref = nat

type_synonym 'msg session_heap = "session_ref \<Rightarrow> 'msg Session"

record 'm SessionManager =
  sm_sessions :: 'm
  sm_sessionCnt :: int

definition NewSessionManager :: "(string, session_ref, 'm) xmap \<Rightarrow> 'm SessionManager" where
  "NewSessionManager X = \<lparr>sm_sessions = xm_New X, sm_sessionCnt = 0\<rparr>"

definition Register ::
  "(string, session_ref, 'm) xmap \<Rightarrow> string \<Rightarrow> session_ref \<Rightarrow> 'm SessionManager \<times> 'msg session_heap
    \<Rightarrow> ('m SessionManager \<times> 'msg session_heap) outcome" where
  "Register X workerID session = (\<lambda>(sm, h).
     (case xm_LoadAndStore X workerID session (sm_sessions sm) of
        (Some existingSession, m) \<Rightarrow>
          (case Close (h existingSession) of
             Ok s \<Rightarrow> Ok (sm\<lparr>sm_sessions := m\<rparr>, h(existingSession := s))
           | Err e \<Rightarrow> Err e
           | Panic p \<Rightarrow> Panic p)
      | (None, m) \<Rightarrow> Ok (sm\<lparr>sm_sessions := m, sm_sessionCnt := sm_sessionCnt sm + 1\<rparr>, h)))"

definition Unregister :: "(string, session_ref, 'm) xmap \<Rightarrow> string \<Rightarrow> 'm SessionManager \<Rightarrow> 'm SessionManager" where
  "Unregister X workerID sm =
     (case xm_LoadAndDelete X workerID (sm_sessions sm) of
        (Some session, m) \<Rightarrow> sm\<lparr>sm_sessions := m, sm_sessionCnt := sm_sessionCnt sm - 1\<rparr>
      | (None, m) \<Rightarrow> sm\<lparr>sm_sessions := m\<rparr>)"

definition Get :: "(string, session_ref, 'm) xmap \<Rightarrow> string \<Rightarrow> 'm SessionManager \<Rightarrow> session_ref option" where
  "Get X workerID sm = xm_Load X (sm_sessions sm) workerID"

text \<open>The pick decides between the ready cases of the session's \<open>select\<close>; \<^term>\<open>None\<close>: the call blocks.\<close>

definition ToWorker ::
  "(string, session_ref, 'm) xmap \<Rightarrow> nat \<Rightarrow> string \<Rightarrow> 'msg \<Rightarrow> 'm SessionManager \<Rightarrow> 'msg session_heap
    \<Rightarrow> (go_error option \<times> 'msg session_heap) option" where
  "ToWorker X pick workerID msg sm h =
     (case xm_Load X (sm_sessions sm) workerID of
        None \<Rightarrow> Some (Some (''worker '' @ workerID @ '' not connected''), h)
      | Some session \<Rightarrow>
          map_option (\<lambda>(err, s). (err, h(session := s))) (Send pick msg (h session)))"

text \<open>The function given to \<open>Range\<close>, over the entries visited; it counts successes and failures.\<close>

fun broadcastLoop ::
  "(string \<Rightarrow> nat) \<Rightarrow> 'msg \<Rightarrow> (string \<times> session_ref) list \<Rightarrow> nat \<times> nat \<times> 'msg session_heap
    \<Rightarrow> (nat \<times> nat \<times> 'msg session_heap) option" where
  "broadcastLoop pick msg [] st = Some st"
| "broadcastLoop pick msg ((workerID, session) # es) (successCount, failCount, h) =
     (case Send (pick workerID) msg (h session) of
        None \<Rightarrow> None
      | Some (Some err, s) \<Rightarrow> broadcastLoop pick msg es (successCount, Suc failCount, h(session := s))
      | Some (None, s) \<Rightarrow> broadcastLoop pick msg es (Suc successCount, failCount, h(session := s)))"

definition Broadcast ::
  "(string, session_ref, 'm) xmap \<Rightarrow> (string \<Rightarrow> nat) \<Rightarrow> 'msg \<Rightarrow> 'm SessionManager \<Rightarrow> 'msg session_heap
    \<Rightarrow> (nat \<times> nat \<times> 'msg session_heap) option" where
  "Broadcast X pick msg sm h = broadcastLoop pick msg (xm_Range X (sm_sessions sm)) (0, 0, h)"

definition SendCommonAck ::
  "(string, session_ref, 'm) xmap \<Rightarrow> 'st new_struct \<Rightarrow> int \<Rightarrow> nat \<Rightarrow> string \<Rightarrow> string \<Rightarrow> string \<Rightarrow> (string \<times> go_value) list option
    \<Rightarrow> 'm SessionManager \<Rightarrow> 'st EventStreamMessage session_heap
    \<Rightarrow> (go_error option \<times> 'st EventStreamMessage session_heap) option" where
  "SendCommonAck X NewStruct now pick workerID serverID eventType payload sm h =
     (let msg = (CreateCommonAckEvent NewStruct now serverID eventType payload)\<lparr>em_WorkerId := workerID\<rparr>
      in ToWorker X pick workerID msg sm h)"

definition SendDataAssignment ::
  "(string, session_ref, 'm) xmap \<Rightarrow> int \<Rightarrow> nat \<Rightarrow> string \<Rightarrow> string \<Rightarrow> DataAssignmentEvent
    \<Rightarrow> 'm SessionManager \<Rightarrow> 'st EventStreamMessage session_heap
    \<Rightarrow> (go_error option \<times> 'st EventStreamMessage session_heap) option" where
  "SendDataAssignment X now pick workerID serverID assignment sm h =
     (let msg = \<lparr>em_EventId = generateEventID now, em_TenantId = '''', em_WorkerId = workerID,
                 em_Payload = Some (Payload_DataAssignment assignment)\<rparr>
      in ToWorker X pick workerID msg sm h)"

definition BroadcastCommonAck ::
  "(string, session_ref, 'm) xmap \<Rightarrow> 'st new_struct \<Rightarrow> int \<Rightarrow> (string \<Rightarrow> nat) \<Rightarrow> string \<Rightarrow> string \<Rightarrow> (string \<times> go_value) list option
    \<Rightarrow> 'm SessionManager \<Rightarrow> 'st EventStreamMessage session_heap
    \<Rightarrow> (nat \<times> nat \<times> 'st EventStreamMessage session_heap) option" where
  "BroadcastCommonAck X NewStruct now pick serverID eventType payload sm h =
     Broadcast X pick (CreateCommonAckEvent NewStruct now serverID eventType payload) sm h"

definition ActiveWorkerCount :: "'m SessionManager \<Rightarrow> int" where
  "ActiveWorkerCount sm = sm_sessionCnt sm"

text \<open>The counter is the capacity of the slice, and \<open>make\<close> panics on a negative one.\<close>

definition ListWorkers :: "(string, session_ref, 'm) xmap \<Rightarrow> 'm SessionManager \<Rightarrow> string list outcome" where
  "ListWorkers X sm =
     (if sm_sessionCnt sm < 0 then Panic ''runtime error: makeslice: cap out of range''
      else Ok (map fst (xm_Range X (sm_sessions sm))))"

fun closeSessions :: "(string \<times> session_ref) list \<Rightarrow> 'msg session_heap \<Rightarrow> 'msg session_heap outcome" where
  "closeSessions [] h = Ok h"
| "closeSessions ((workerID, session) # es) h =
     (case Close (h session) of
        Ok s \<Rightarrow> closeSessions es (h(session := s))
      | Err e \<Rightarrow> Err e
      | Panic p \<Rightarrow> Panic p)"

definition SessionManager_Close ::
  "(string, session_ref, 'm) xmap \<Rightarrow> 'm SessionManager \<times> 'msg session_heap
    \<Rightarrow> ('m SessionManager \<times> 'msg session_heap) outcome" where
  "SessionManager_Close X = (\<lambda>(sm, h).
     (case closeSessions (xm_Range X (sm_sessions sm)) h of
        Ok h' \<Rightarrow> Ok (sm\<lparr>sm_sessions := xm_Clear X (sm_sessions sm), sm_sessionCnt := 0\<rparr>, h')
      | Err e \<Rightarrow> Err e
      | Panic p \<Rightarrow> Panic p))"

subsection \<open>An abstract specification\<close>

text \<open>
  What the manager promises: it knows which session serves each connected worker, and which
  sessions have ended because they were replaced or the manager was closed.
\<close>

record sm_spec =
  connected :: "string \<Rightarrow> session_ref option"
  ended :: "session_ref set"

datatype sm_op = SmRegister string session_ref | SmUnregister string | SmClose

fun spec_exec :: "sm_op \<Rightarrow> sm_spec \<Rightarrow> sm_spec" where
  "spec_exec (SmRegister w r) a =
     \<lparr>connected = (connected a)(w \<mapsto> r), ended = ended a \<union> set_option (connected a w)\<rparr>"
| "spec_exec (SmUnregister w) a = a\<lparr>connected := (connected a)(w := None)\<rparr>"
| "spec_exec SmClose a = \<lparr>connected = Map.empty, ended = ended a \<union> ran (connected a)\<rparr>"

fun sm_exec ::
  "(string, session_ref, 'm) xmap \<Rightarrow> sm_op \<Rightarrow> 'm SessionManager \<times> 'msg session_heap
    \<Rightarrow> ('m SessionManager \<times> 'msg session_heap) outcome" where
  "sm_exec X (SmRegister w r) st = Register X w r st"
| "sm_exec X (SmUnregister w) st = Ok (Unregister X w (fst st), snd st)"
| "sm_exec X SmClose st = SessionManager_Close X st"

fun sm_run ::
  "(string, session_ref, 'm) xmap \<Rightarrow> sm_op list \<Rightarrow> 'm SessionManager \<times> 'msg session_heap
    \<Rightarrow> ('m SessionManager \<times> 'msg session_heap) outcome" where
  "sm_run X [] st = Ok st"
| "sm_run X (op # ops) st =
     (case sm_exec X op st of Ok st' \<Rightarrow> sm_run X ops st' | Err e \<Rightarrow> Err e | Panic p \<Rightarrow> Panic p)"

text \<open>A session whose channel is closed has its flag set, as the invariant of sessions guarantees.\<close>

definition sound_session :: "'m Session \<Rightarrow> bool" where
  "sound_session s \<longleftrightarrow> (ss_outboxClosed s \<longrightarrow> ss_closed s)"

lemma session_inv_sound: "session_inv r \<Longrightarrow> sound_session (sr_session r)"
  by (auto simp: session_inv_def sound_session_def)

lemma Close_sound:
  assumes "sound_session s"
  obtains s' where "Close s = Ok s'" "sound_session s'" "ss_closed s'" "ss_outbox s' = ss_outbox s"
  using assms that
  by (cases "ss_closed s") (auto simp: Close_def closeOutbox_def sound_session_def)

definition refines :: "(string, session_ref, 'm) xmap \<Rightarrow> 'm SessionManager \<times> 'msg session_heap \<Rightarrow> sm_spec \<Rightarrow> bool" where
  "refines X st a \<longleftrightarrow>
     xm_Load X (sm_sessions (fst st)) = connected a
     \<and> {r. ss_closed (snd st r)} = ended a
     \<and> sm_sessionCnt (fst st) = int (card (dom (connected a)))
     \<and> (\<forall>r. sound_session (snd st r))"

lemma closeSessions_sound:
  assumes "\<forall>r. sound_session (h r)"
  shows "\<exists>h'. closeSessions es h = Ok h' \<and> (\<forall>r. sound_session (h' r))
    \<and> {r. ss_closed (h' r)} = {r. ss_closed (h r)} \<union> snd ` set es"
  using assms
proof (induction es arbitrary: h)
  case (Cons e es)
  obtain w r where e: "e = (w, r)" by (cases e)
  from Cons.prems obtain s where s: "Close (h r) = Ok s" "sound_session s" "ss_closed s"
    using Close_sound by metis
  have "\<forall>q. sound_session ((h(r := s)) q)" "{q. ss_closed ((h(r := s)) q)} = insert r {q. ss_closed (h q)}"
    using s Cons.prems by auto
  with Cons.IH [of "h(r := s)"] s(1) show ?case by (auto simp: e simp del: fun_upd_apply)
qed simp

text \<open>The manager's map, from worker identifiers to sessions.\<close>

locale session_map = xsync_map X for X :: "(string, session_ref, 'm) xmap"
begin

lemma refines_new: "\<forall>r. sound_session (h r) \<Longrightarrow>
    refines X (NewSessionManager X, h) \<lparr>connected = Map.empty, ended = {r. ss_closed (h r)}\<rparr>"
  by (simp add: refines_def NewSessionManager_def)

lemma Range_ran: "snd ` set (xm_Range X m) = ran (xm_Load X m)"
  using Range_distinct [of m] by (simp flip: Range_map add: ran_distinct)

lemma refines_exec:
  assumes "refines X (sm, h) a"
  shows "\<exists>st'. sm_exec X op (sm, h) = Ok st' \<and> refines X st' (spec_exec op a)"
proof (cases op)
  case (SmRegister w r)
  obtain m where stored: "xm_LoadAndStore X w r (sm_sessions sm) = (connected a w, m)"
      "xm_Load X m = (connected a)(w \<mapsto> r)"
    using assms LoadAndStore_cases unfolding refines_def by (metis fst_conv)
  show ?thesis
  proof (cases "connected a w")
    case None
    then have "w \<notin> dom (connected a)" by auto
    with None assms stored finite_dom [of "sm_sessions sm"] show ?thesis
      by (auto simp: SmRegister Register_def refines_def)
  next
    case (Some old)
    then have "insert w (dom (connected a)) = dom (connected a)" by auto
    moreover obtain s where "Close (h old) = Ok s" "sound_session s" "ss_closed s"
      using assms Close_sound unfolding refines_def by (metis snd_conv)
    ultimately show ?thesis
      using Some assms stored by (auto simp: SmRegister Register_def refines_def)
  qed
next
  case (SmUnregister w)
  obtain m where deleted: "xm_LoadAndDelete X w (sm_sessions sm) = (connected a w, m)"
      "xm_Load X m = (connected a)(w := None)"
    using assms LoadAndDelete_cases unfolding refines_def by (metis fst_conv)
  show ?thesis
  proof (cases "connected a w")
    case None
    then have "dom (connected a) - {w} = dom (connected a)" "(connected a)(w := None) = connected a" by auto
    with None assms deleted show ?thesis
      by (auto simp: SmUnregister Unregister_def refines_def)
  next
    case (Some r)
    then have "w \<in> dom (connected a)" by auto
    moreover have "finite (dom (connected a))" using assms finite_dom [of "sm_sessions sm"] by (simp add: refines_def)
    ultimately have "int (card (dom (connected a) - {w})) = int (card (dom (connected a))) - 1"
      using card_gt_0_iff [of "dom (connected a)"] by (auto simp: card_Diff_singleton)
    with Some assms deleted show ?thesis
      by (auto simp: SmUnregister Unregister_def refines_def)
  qed
next
  case SmClose
  from assms have "\<forall>r. sound_session (h r)" by (simp add: refines_def)
  from closeSessions_sound [OF this, of "xm_Range X (sm_sessions sm)"] assms show ?thesis
    by (auto simp: SmClose SessionManager_Close_def refines_def Range_ran)
qed

lemma refines_run:
  "refines X st a \<Longrightarrow> \<exists>st'. sm_run X ops st = Ok st' \<and> refines X st' (fold spec_exec ops a)"
proof (induction ops arbitrary: st a)
  case (Cons op ops)
  with refines_exec [of "fst st" "snd st" a op] show ?case by fastforce
qed simp

end

interpretation fmap_sessions: session_map "fmap_xmap :: (string, session_ref, (string, session_ref) fmap) xmap"
  by unfold_locales

text \<open>
  C3: the session manager implements its specification.  Starting from an empty manager, any
  sequence of registrations, removals and shutdowns succeeds, the map holds exactly the connected
  workers with their newest sessions, exactly the replaced sessions and those of a shutdown have
  been closed, and the counter is the number of connected workers.
\<close>

theorem SessionManager_refines_spec:
  fixes X :: "(string, session_ref, 'm) xmap" and h :: "'msg session_heap" and ops :: "sm_op list"
  assumes "session_map X" and "\<forall>r. sound_session (h r)"
  defines "a \<equiv> fold spec_exec ops \<lparr>connected = Map.empty, ended = {r. ss_closed (h r)}\<rparr>"
  shows "\<exists>sm h'. sm_run X ops (NewSessionManager X, h) = Ok (sm, h')
    \<and> (\<forall>w. Get X w sm = connected a w) \<and> {r. ss_closed (h' r)} = ended a
    \<and> ActiveWorkerCount sm = int (card (dom (connected a)))
    \<and> (\<exists>workers. ListWorkers X sm = Ok workers \<and> set workers = dom (connected a))"
proof -
  have "refines X (NewSessionManager X, h) \<lparr>connected = Map.empty, ended = {r. ss_closed (h r)}\<rparr>"
    by (rule session_map.refines_new [OF assms(1,2)])
  from session_map.refines_run [OF assms(1) this, of ops] obtain sm h' where
    run: "sm_run X ops (NewSessionManager X, h) = Ok (sm, h')" "refines X (sm, h') a"
    unfolding a_def by fastforce
  moreover have "set (map fst (xm_Range X (sm_sessions sm))) = dom (xm_Load X (sm_sessions sm))"
    using xsync_map.Range_keys [OF session_map.axioms [OF assms(1)]] by simp
  ultimately show ?thesis
    by (intro exI [of _ sm] exI [of _ h']) (simp add: refines_def Get_def ActiveWorkerCount_def ListWorkers_def)
qed

theorem SessionManager_refines_spec_witness:
  "\<exists>sm h'. sm_run fmap_xmap [SmRegister ''w1'' 1, SmRegister ''w2'' 2, SmRegister ''w1'' 3, SmUnregister ''w2'']
      (NewSessionManager fmap_xmap, \<lambda>r. NewSession None ''node1'' :: string Session) = Ok (sm, h')
    \<and> Get fmap_xmap ''w1'' sm = Some 3 \<and> {r. ss_closed (h' r)} = {1} \<and> ActiveWorkerCount sm = 1"
proof -
  have "\<forall>r. sound_session ((\<lambda>r. NewSession None ''node1'' :: string Session) r)"
    by (simp add: sound_session_def NewSession_def)
  from SessionManager_refines_spec [OF fmap_sessions.session_map_axioms this,
      of "[SmRegister ''w1'' 1, SmRegister ''w2'' 2, SmRegister ''w1'' 3, SmUnregister ''w2'']"]
  show ?thesis by (auto simp: NewSession_def dom_def)
qed

text \<open>
  Registering the session that is already registered for the worker closes it: a second
  registration on one stream ends the stream's own session.
\<close>

lemma Register_again_closes:
  assumes "session_map X" and "Get X w sm = Some r" and "sound_session (h r)"
  shows "\<exists>sm' h'. Register X w r (sm, h) = Ok (sm', h') \<and> Get X w sm' = Some r \<and> ss_closed (h' r)"
proof -
  obtain s where "Close (h r) = Ok s" "ss_closed s" using Close_sound [OF assms(3)] by metis
  moreover obtain m where "xm_LoadAndStore X w r (sm_sessions sm) = (Some r, m)"
      "xm_Load X m = (xm_Load X (sm_sessions sm))(w \<mapsto> r)"
    using assms(2) xsync_map.LoadAndStore_cases [OF session_map.axioms [OF assms(1)]] unfolding Get_def by metis
  ultimately show ?thesis by (simp add: Register_def Get_def)
qed

end
