(* ===== verification/Session_Manager_Examples.thy ===== *)
theory Session_Manager_Examples
  imports Session_Manager
begin

text \<open>
  \<open>internal/api/grpc/events/session_manager_example.go\<close>: the intended uses of the session manager.
  What the functions log is left out, and the assignment they are given is not nil.
\<close>

definition ExampleBroadcastToAllWorkers ::
  "(string, session_ref, 'm) xmap \<Rightarrow> 'st new_struct \<Rightarrow> int \<Rightarrow> (string \<Rightarrow> nat) \<Rightarrow> 'm SessionManager
   \<Rightarrow> 'st EventStreamMessage session_heap \<Rightarrow> (nat \<times> nat \<times> 'st EventStreamMessage session_heap) option" where
  "ExampleBroadcastToAllWorkers X NewStruct now pick sm h =
     (let payload = [(''message'', GString ''System maintenance in 5 minutes''), (''type'', GString ''announcement'')];
          msg = CreateCommonAckEvent NewStruct now ''master-node-1'' ''system_announcement'' (Some payload)
      in Broadcast X pick msg sm h)"

definition ExampleSendDataAssignmentToWorker ::
  "(string, session_ref, 'm) xmap \<Rightarrow> int \<Rightarrow> nat \<Rightarrow> string \<Rightarrow> DataAssignmentEvent \<Rightarrow> 'm SessionManager
   \<Rightarrow> 'st EventStreamMessage session_heap \<Rightarrow> (go_error option \<times> 'st EventStreamMessage session_heap) option" where
  "ExampleSendDataAssignmentToWorker X now pick workerID assignment sm h =
     SendDataAssignment X now pick workerID ''master-node-1'' assignment sm h"

definition ExampleListActiveWorkers :: "(string, session_ref, 'm) xmap \<Rightarrow> 'm SessionManager \<Rightarrow> string list outcome" where
  "ExampleListActiveWorkers X sm = ListWorkers X sm"

definition ExampleCheckWorkerConnection :: "(string, session_ref, 'm) xmap \<Rightarrow> 'm SessionManager \<Rightarrow> string \<Rightarrow> bool" where
  "ExampleCheckWorkerConnection X sm workerID = (case Get X workerID sm of Some session \<Rightarrow> True | None \<Rightarrow> False)"

definition ExampleSchedulerPushPattern ::
  "(string, session_ref, 'm) xmap \<Rightarrow> int \<Rightarrow> nat \<Rightarrow> string \<Rightarrow> 'm SessionManager
   \<Rightarrow> 'st EventStreamMessage session_heap \<Rightarrow> (go_error option \<times> 'st EventStreamMessage session_heap) option" where
  "ExampleSchedulerPushPattern X now pick workerID sm h =
     (let assignment =
            \<lparr>da_DatasetId = ''sales_data'', da_EpochId = ''1730419200000_a7b3c2'',
             da_LoadPlan = Some
               \<lparr>lpl_PlanId = ''plan_001'', lpl_Source = None,
                lpl_DestinationTableName = ''sales_data__1730419200000_a7b3c2'', lpl_ArrowSchema = '''',
                lpl_ResolvedPartition = None\<rparr>\<rparr>
      in ExampleSendDataAssignmentToWorker X now pick workerID assignment sm h)"

text \<open>
  A push that returns without an error has put exactly one assignment for the worker at the end of
  its outbox, and every other outcome leaves all sessions as they were; in particular the example
  for the connection predicts the error for a worker that is not connected.
\<close>

lemma ToWorker_effect:
  assumes "ToWorker X pick workerID msg sm h = Some (err, h')"
  shows "case err of
      None \<Rightarrow> \<exists>r. Get X workerID sm = Some r \<and> h' = h(r := (h r)\<lparr>ss_outbox := ss_outbox (h r) @ [msg]\<rparr>)
    | Some e \<Rightarrow> h' = h"
  using assms
  by (cases err) (auto simp: ToWorker_def Get_def dest!: Send_effect split: option.splits)

lemma push_effect:
  assumes "ExampleSendDataAssignmentToWorker X now pick workerID assignment sm h = Some (err, h')"
  shows "case err of
      None \<Rightarrow> ExampleCheckWorkerConnection X sm workerID \<and>
        (\<exists>r msg. h' = h(r := (h r)\<lparr>ss_outbox := ss_outbox (h r) @ [msg]\<rparr>) \<and> em_WorkerId msg = workerID
           \<and> em_Payload msg = Some (Payload_DataAssignment assignment))
    | Some e \<Rightarrow> h' = h"
  using ToWorker_effect [OF assms [unfolded ExampleSendDataAssignmentToWorker_def SendDataAssignment_def Let_def]]
  by (force simp: ExampleCheckWorkerConnection_def split: option.splits)

lemma push_to_unknown_worker:
  assumes "\<not> ExampleCheckWorkerConnection X sm workerID"
  shows "ExampleSchedulerPushPattern X now pick workerID sm h = Some (Some (''worker '' @ workerID @ '' not connected''), h)"
  using assms
  by (simp add: ExampleSchedulerPushPattern_def ExampleSendDataAssignmentToWorker_def SendDataAssignment_def ToWorker_def
      ExampleCheckWorkerConnection_def Get_def split: option.splits)

text \<open>The two examples agree: the workers listed are those that the check finds connected.\<close>

lemma ExampleListActiveWorkers_check:
  assumes "session_map X" and "ExampleListActiveWorkers X sm = Ok workers"
  shows "w \<in> set workers \<longleftrightarrow> ExampleCheckWorkerConnection X sm w"
  using assms xsync_map.Range_keys [OF session_map.axioms [OF assms(1)], of "sm_sessions sm"]
  by (auto simp: ExampleListActiveWorkers_def ListWorkers_def ExampleCheckWorkerConnection_def Get_def
      split: if_splits option.splits)

end
