(* ===== verification/Runtime_Logger.thy ===== *)
theory Runtime_Logger
  imports Leibrix_Prelude "HOL-Library.Char_ord"
begin

text \<open>
  The part of \<open>pkg/common/common_utils.go\<close> that every package runs when it is initialised: it
  builds a logger for the runtime the environment names.  The logging library is a parameter.
\<close>

text \<open>\<open>strings.ToLower\<close> on ASCII letters; other bytes are kept.\<close>

definition strings_ToLower :: "string \<Rightarrow> string" where
  "strings_ToLower = map (\<lambda>c. if CHR ''A'' \<le> c \<and> c \<le> CHR ''Z'' then char_of (of_char c + 32 :: nat) else c)"

datatype zap_level = InfoLevel | DebugLevel

record ('cfg, 'lg) zap =
  zap_NewProductionConfig :: 'cfg
  zap_NewDevelopmentConfig :: 'cfg
  zap_setLevel :: "zap_level \<Rightarrow> 'cfg \<Rightarrow> 'cfg"
  zap_Build :: "'cfg \<Rightarrow> go_error + 'lg"

text \<open>The argument is the value of \<open>LEIBRIX_RUNTIME\<close>, if it is set.\<close>

definition IsProdRuntime :: "string option \<Rightarrow> bool" where
  "IsProdRuntime runEnv = (case runEnv of Some runEvnVal \<Rightarrow> strings_ToLower runEvnVal = ''prod'' | None \<Rightarrow> False)"

definition BuildZapLogger :: "('cfg, 'lg) zap \<Rightarrow> string option \<Rightarrow> go_error + 'lg" where
  "BuildZapLogger Z runEnv =
     (let logConfig =
            (if IsProdRuntime runEnv then zap_setLevel Z InfoLevel (zap_NewProductionConfig Z)
             else zap_setLevel Z DebugLevel (zap_NewDevelopmentConfig Z))
      in zap_Build Z logConfig)"

text \<open>The wrapper around the logger is left out.\<close>

definition InitLogger :: "('cfg, 'lg) zap \<Rightarrow> string option \<Rightarrow> 'lg outcome" where
  "InitLogger Z runEnv =
     (case BuildZapLogger Z runEnv of
        Inl err \<Rightarrow> Panic (''Failed to initialize zap logger '' @ err)
      | Inr zapLogger \<Rightarrow> Ok zapLogger)"

text \<open>The value is compared without regard to case, and as a whole.\<close>

lemma IsProdRuntime_values:
  "IsProdRuntime (Some ''prod'')" "IsProdRuntime (Some ''PROD'')" "IsProdRuntime (Some ''Prod'')"
  "\<not> IsProdRuntime (Some ''production'')" "\<not> IsProdRuntime None"
  by code_simp+

end
