(* ===== verification/State_Handlers.thy ===== *)
theory State_Handlers
  imports Session_Manager Config Runtime_Logger
begin

text \<open>
  \<open>internal/api/grpc/events/state_handlers.go\<close>, \<open>heartbeat_handler.go\<close> and \<open>event_dispatcher.go\<close>: the
  state workers report, the handlers that record it and acknowledge, and the dispatcher that finds
  the handler of an event.  The maps are parameters (one for each value type, in the record
  \<open>store_maps\<close>).  \<open>proto.Clone\<close> has no counterpart: a value is its own copy.
\<close>

subsection \<open>The state store\<close>

record ('mw, 'mp, 'mc) ControlPlaneStateStore =
  cs_workers :: 'mw
  cs_pullStates :: 'mp
  cs_commonAcks :: 'mc

record ('st, 'mw, 'mp, 'mc) store_maps =
  xs_workers :: "(string, Worker, 'mw) xmap"
  xs_pullStates :: "(string, DataPullStatusUpdateEvent, 'mp) xmap"
  xs_commonAcks :: "(string, 'st CommonAckEvent, 'mc) xmap"

definition NewControlPlaneStateStore :: "('st, 'mw, 'mp, 'mc) store_maps \<Rightarrow> ('mw, 'mp, 'mc) ControlPlaneStateStore" where
  "NewControlPlaneStateStore S =
     \<lparr>cs_workers = xm_New (xs_workers S), cs_pullStates = xm_New (xs_pullStates S), cs_commonAcks = xm_New (xs_commonAcks S)\<rparr>"

definition pullStatusKey :: "string \<Rightarrow> string \<Rightarrow> string" where
  "pullStatusKey datasetID epochID = datasetID @ ''/'' @ epochID"

definition commonAckKey :: "string \<Rightarrow> string \<Rightarrow> string" where
  "commonAckKey serverID eventType = serverID @ ''/'' @ eventType"

definition UpsertWorker ::
  "('st, 'mw, 'mp, 'mc) store_maps \<Rightarrow> Worker option \<Rightarrow> ('mw, 'mp, 'mc) ControlPlaneStateStore \<Rightarrow> ('mw, 'mp, 'mc) ControlPlaneStateStore" where
  "UpsertWorker S worker s =
     (case worker of
        None \<Rightarrow> s
      | Some w \<Rightarrow> s\<lparr>cs_workers := xm_Store (xs_workers S) (w_NodeId w) w (cs_workers s)\<rparr>)"

definition Worker_lookup ::
  "('st, 'mw, 'mp, 'mc) store_maps \<Rightarrow> string \<Rightarrow> ('mw, 'mp, 'mc) ControlPlaneStateStore \<Rightarrow> Worker option" where
  "Worker_lookup S workerID s = xm_Load (xs_workers S) (cs_workers s) workerID"

definition UpdatePullStatus ::
  "('st, 'mw, 'mp, 'mc) store_maps \<Rightarrow> DataPullStatusUpdateEvent option \<Rightarrow> ('mw, 'mp, 'mc) ControlPlaneStateStore \<Rightarrow> ('mw, 'mp, 'mc) ControlPlaneStateStore" where
  "UpdatePullStatus S update s =
     (case update of
        None \<Rightarrow> s
      | Some u \<Rightarrow> s\<lparr>cs_pullStates := xm_Store (xs_pullStates S) (pullStatusKey (dps_DatasetId u) (dps_EpochId u)) u (cs_pullStates s)\<rparr>)"

definition PullStatus ::
  "('st, 'mw, 'mp, 'mc) store_maps \<Rightarrow> string \<Rightarrow> string \<Rightarrow> ('mw, 'mp, 'mc) ControlPlaneStateStore \<Rightarrow> DataPullStatusUpdateEvent option" where
  "PullStatus S datasetID epochID s = xm_Load (xs_pullStates S) (cs_pullStates s) (pullStatusKey datasetID epochID)"

definition RecordCommonAck ::
  "('st, 'mw, 'mp, 'mc) store_maps \<Rightarrow> 'st CommonAckEvent option \<Rightarrow> ('mw, 'mp, 'mc) ControlPlaneStateStore \<Rightarrow> ('mw, 'mp, 'mc) ControlPlaneStateStore" where
  "RecordCommonAck S ack s =
     (case ack of
        None \<Rightarrow> s
      | Some a \<Rightarrow> s\<lparr>cs_commonAcks := xm_Store (xs_commonAcks S) (commonAckKey (ca_ServerId a) (ca_EventType a)) a (cs_commonAcks s)\<rparr>)"

definition CommonAck ::
  "('st, 'mw, 'mp, 'mc) store_maps \<Rightarrow> string \<Rightarrow> string \<Rightarrow> ('mw, 'mp, 'mc) ControlPlaneStateStore \<Rightarrow> 'st CommonAckEvent option" where
  "CommonAck S serverID eventType s = xm_Load (xs_commonAcks S) (cs_commonAcks s) (commonAckKey serverID eventType)"

subsection \<open>Handlers\<close>

text \<open>\<open>%T\<close> of a message and the enum's \<open>String\<close>.\<close>

fun payload_type :: "'st payload \<Rightarrow> string" where
  "payload_type (Payload_Register e) = ''*proto.RegisterEvent''"
| "payload_type Payload_Heartbeat = ''*proto.HeartbeatEvent''"
| "payload_type (Payload_DataPullStatus e) = ''*proto.DataPullStatusUpdateEvent''"
| "payload_type (Payload_DataAssignment e) = ''*proto.DataAssignmentEvent''"
| "payload_type (Payload_CommonAck e) = ''*proto.CommonAckEvent''"

fun status_String :: "DataPullStatus \<Rightarrow> string" where
  "status_String PULL_UNKNOWN = ''UNKNOWN''"
| "status_String PULL_IN_PROGRESS = ''IN_PROGRESS''"
| "status_String PULL_COMPLETED = ''COMPLETED''"
| "status_String PULL_FAILED = ''FAILED''"
| "status_String (PULL_other n) = string_of_int (sint n)"

text \<open>
  The argument \<open>clock\<close> holds the readings of the clock a handler makes, in order.  A handler returns a
  message or an error, and the store.
\<close>

definition Heartbeat_OnEvent :: "'st new_struct \<Rightarrow> int \<times> int \<Rightarrow> string \<Rightarrow> go_error + 'st EventStreamMessage" where
  "Heartbeat_OnEvent NewStruct clock serverId =
     Inr (CreateCommonAckEvent NewStruct (snd clock) serverId ''heartbeat_ack''
       (Some [(''ack_timestamp'', GInt (fst clock)), (''server_id'', GString serverId), (''status'', GString ''healthy'')]))"

definition Register_OnEvent ::
  "('st, 'mw, 'mp, 'mc) store_maps \<Rightarrow> 'st new_struct \<Rightarrow> int \<times> int \<Rightarrow> string \<Rightarrow> 'st payload \<Rightarrow> ('mw, 'mp, 'mc) ControlPlaneStateStore
    \<Rightarrow> (go_error + 'st EventStreamMessage) \<times> ('mw, 'mp, 'mc) ControlPlaneStateStore" where
  "Register_OnEvent S NewStruct clock serverID message s =
     (case message of
        Payload_Register registerEvent \<Rightarrow>
          (case re_Worker registerEvent of
             None \<Rightarrow> (Inl ''register event is missing worker identity'', s)
           | Some w \<Rightarrow>
               if w_NodeId w = '''' then (Inl ''register event is missing worker identity'', s)
               else (Inr (CreateCommonAckEvent NewStruct (fst clock) serverID ''registration_ack''
                       (Some [(''accepted'', GBool True), (''worker_id'', GString (w_NodeId w))])),
                     UpsertWorker S (re_Worker registerEvent) s))
      | _ \<Rightarrow> (Inl (''unexpected register payload type: '' @ payload_type message), s))"

definition DataPull_OnEvent ::
  "('st, 'mw, 'mp, 'mc) store_maps \<Rightarrow> 'st new_struct \<Rightarrow> int \<times> int \<Rightarrow> string \<Rightarrow> 'st payload \<Rightarrow> ('mw, 'mp, 'mc) ControlPlaneStateStore
    \<Rightarrow> (go_error + 'st EventStreamMessage) \<times> ('mw, 'mp, 'mc) ControlPlaneStateStore" where
  "DataPull_OnEvent S NewStruct clock serverID message s =
     (case message of
        Payload_DataPullStatus u \<Rightarrow>
          if dps_DatasetId u = '''' \<or> dps_EpochId u = ''''
          then (Inl ''data pull update requires dataset_id and epoch_id'', s)
          else (Inr (CreateCommonAckEvent NewStruct (fst clock) serverID ''data_pull_status_ack''
                  (Some [(''dataset_id'', GString (dps_DatasetId u)), (''epoch_id'', GString (dps_EpochId u)),
                         (''status'', GString (strings_ToLower (status_String (dps_Status u))))])),
                UpdatePullStatus S (Some u) s)
      | _ \<Rightarrow> (Inl (''unexpected data pull payload type: '' @ payload_type message), s))"

definition CommonAck_OnEvent ::
  "('st, 'mw, 'mp, 'mc) store_maps \<Rightarrow> 'st new_struct \<Rightarrow> int \<times> int \<Rightarrow> string \<Rightarrow> 'st payload \<Rightarrow> ('mw, 'mp, 'mc) ControlPlaneStateStore
    \<Rightarrow> (go_error + 'st EventStreamMessage) \<times> ('mw, 'mp, 'mc) ControlPlaneStateStore" where
  "CommonAck_OnEvent S NewStruct clock serverID message s =
     (case message of
        Payload_CommonAck ackEvent \<Rightarrow>
          if ca_ServerId ackEvent = '''' then (Inl ''common ack is missing server_id'', s)
          else (Inr (CreateCommonAckEvent NewStruct (fst clock) serverID ''ack_received''
                  (Some [(''source_server_id'', GString (ca_ServerId ackEvent)), (''event_type'', GString (ca_EventType ackEvent)),
                         (''recorded'', GBool True)])),
                RecordCommonAck S (Some ackEvent) s)
      | _ \<Rightarrow> (Inl (''unexpected common ack payload type: '' @ payload_type message), s))"

subsection \<open>The dispatcher\<close>

datatype EventHandler =
  HeartbeatHandler string | RegisterHandler string | DataPullStateHandler string | CommonAckHandler string

text \<open>The handlers share the state store, which is an argument of \<open>OnEvent\<close> instead.\<close>

definition NewHeartbeatHandler :: "string \<Rightarrow> EventHandler" where
  "NewHeartbeatHandler serverId = HeartbeatHandler serverId"

definition NewRegisterHandler :: "string \<Rightarrow> EventHandler" where
  "NewRegisterHandler serverID = RegisterHandler serverID"

definition NewDataPullStateHandler :: "string \<Rightarrow> EventHandler" where
  "NewDataPullStateHandler serverID = DataPullStateHandler serverID"

definition NewCommonAckHandler :: "string \<Rightarrow> EventHandler" where
  "NewCommonAckHandler serverID = CommonAckHandler serverID"

lemmas new_handlers [simp] =
  NewHeartbeatHandler_def NewRegisterHandler_def NewDataPullStateHandler_def NewCommonAckHandler_def

definition OnEvent ::
  "('st, 'mw, 'mp, 'mc) store_maps \<Rightarrow> 'st new_struct \<Rightarrow> int \<times> int \<Rightarrow> EventHandler \<Rightarrow> 'st payload \<Rightarrow> ('mw, 'mp, 'mc) ControlPlaneStateStore
    \<Rightarrow> (go_error + 'st EventStreamMessage) \<times> ('mw, 'mp, 'mc) ControlPlaneStateStore" where
  "OnEvent S NewStruct clock handler message s =
     (case handler of
        HeartbeatHandler serverID \<Rightarrow> (Heartbeat_OnEvent NewStruct clock serverID, s)
      | RegisterHandler serverID \<Rightarrow> Register_OnEvent S NewStruct clock serverID message s
      | DataPullStateHandler serverID \<Rightarrow> DataPull_OnEvent S NewStruct clock serverID message s
      | CommonAckHandler serverID \<Rightarrow> CommonAck_OnEvent S NewStruct clock serverID message s)"

abbreviation EventTypeHeartbeat :: string where "EventTypeHeartbeat \<equiv> ''HEARTBEAT''"
abbreviation EventTypeRegister :: string where "EventTypeRegister \<equiv> ''REGISTER''"
abbreviation EventTypeDataPullState :: string where "EventTypeDataPullState \<equiv> ''DATA_PULL_STATE''"
abbreviation EventTypeDataAssigment :: string where "EventTypeDataAssigment \<equiv> ''DATA_ASSIGNMENT''"
abbreviation EventTypeCommonAck :: string where "EventTypeCommonAck \<equiv> ''COMMON_ACK''"

definition NewEventDispatcher :: "(string, EventHandler, 'md) xmap \<Rightarrow> 'md" where
  "NewEventDispatcher D = xm_New D"

definition Dispatcher_Register ::
  "(string, EventHandler, 'md) xmap \<Rightarrow> string \<Rightarrow> EventHandler \<Rightarrow> 'md \<Rightarrow> 'md" where
  "Dispatcher_Register D eventType handler handlers = snd (xm_LoadOrStore D eventType handler handlers)"

definition Dispatch ::
  "(string, EventHandler, 'md) xmap \<Rightarrow> ('st, 'mw, 'mp, 'mc) store_maps \<Rightarrow> 'st new_struct \<Rightarrow> int \<times> int \<Rightarrow> 'md
    \<Rightarrow> string \<Rightarrow> 'st payload \<Rightarrow> ('mw, 'mp, 'mc) ControlPlaneStateStore
    \<Rightarrow> (go_error + 'st EventStreamMessage) \<times> ('mw, 'mp, 'mc) ControlPlaneStateStore" where
  "Dispatch D S NewStruct clock handlers eventType event s =
     (case xm_Load D handlers eventType of
        None \<Rightarrow> (Inl (''no handler for event type: '' @ eventType), s)
      | Some handler \<Rightarrow> OnEvent S NewStruct clock handler event s)"

definition RegisterAllEventHandlers :: "(string, EventHandler, 'md) xmap \<Rightarrow> LeibrixConfig \<Rightarrow> 'md \<Rightarrow> 'md" where
  "RegisterAllEventHandlers D config handlers =
     (let node = nc_NodeName (lc_Node config);
          handlers = Dispatcher_Register D EventTypeHeartbeat (NewHeartbeatHandler node) handlers;
          handlers = Dispatcher_Register D EventTypeRegister (NewRegisterHandler node) handlers;
          handlers = Dispatcher_Register D EventTypeDataPullState (NewDataPullStateHandler node) handlers
      in Dispatcher_Register D EventTypeCommonAck (NewCommonAckHandler node) handlers)"

end
