(* ===== verification/Control_Plane.thy ===== *)
theory Control_Plane
  imports State_Handlers Leadership
begin

text \<open>
  \<open>internal/api/grpc/control_plane_service.go\<close>: one \<open>CoordinateWorker\<close> call per worker stream.  The
  receive loop is \<open>coordinateStep\<close>, one turn at a time, so that the turns of several streams can
  be interleaved; the deferred function is \<open>coordinateExit\<close>; \<open>CoordinateWorker\<close> is the whole call
  of a stream whose turns are not interleaved with others.  Handling a message is a goroutine of
  its own: the loop lists the messages it starts a goroutine for, and \<open>handleEventAsync\<close> is what
  such a goroutine does.
\<close>

subsection \<open>Handling one event\<close>

definition handleEvent ::
  "(string, EventHandler, 'md) xmap \<Rightarrow> ('st, 'mw, 'mp, 'mc) store_maps \<Rightarrow> 'st new_struct \<Rightarrow> int \<times> int \<Rightarrow> 'md
    \<Rightarrow> 'st EventStreamMessage \<Rightarrow> ('mw, 'mp, 'mc) ControlPlaneStateStore
    \<Rightarrow> (go_error + 'st EventStreamMessage) \<times> ('mw, 'mp, 'mc) ControlPlaneStateStore" where
  "handleEvent D S NewStruct clock handlers reqMsg s =
     (case em_Payload reqMsg of
        Some (Payload_Register e) \<Rightarrow> Dispatch D S NewStruct clock handlers EventTypeRegister (Payload_Register e) s
      | Some Payload_Heartbeat \<Rightarrow> Dispatch D S NewStruct clock handlers EventTypeHeartbeat Payload_Heartbeat s
      | Some (Payload_DataPullStatus e) \<Rightarrow> Dispatch D S NewStruct clock handlers EventTypeDataPullState (Payload_DataPullStatus e) s
      | Some (Payload_DataAssignment e) \<Rightarrow> Dispatch D S NewStruct clock handlers EventTypeDataAssigment (Payload_DataAssignment e) s
      | Some (Payload_CommonAck e) \<Rightarrow> Dispatch D S NewStruct clock handlers EventTypeCommonAck (Payload_CommonAck e) s
      | None \<Rightarrow> (Inl (''unknown event type in message '' @ em_EventId reqMsg), s))"

text \<open>The acknowledgement a message gets, and the goroutine that computes and sends it.\<close>

definition ackOf ::
  "'st new_struct \<Rightarrow> int \<Rightarrow> string \<Rightarrow> 'st EventStreamMessage \<Rightarrow> go_error + 'st EventStreamMessage \<Rightarrow> 'st EventStreamMessage" where
  "ackOf NewStruct now serverId msg result =
     (case result of
        Inr ackMsg \<Rightarrow> ackMsg
      | Inl err \<Rightarrow> CreateCommonAckEvent NewStruct now serverId ''error_ack''
          (Some [(''error'', GString err), (''original_event_id'', GString (em_EventId msg))]))"

definition handleEventAsync ::
  "(string, EventHandler, 'md) xmap \<Rightarrow> ('st, 'mw, 'mp, 'mc) store_maps \<Rightarrow> 'st new_struct \<Rightarrow> int \<times> int \<Rightarrow> int \<Rightarrow> nat \<Rightarrow> 'md
    \<Rightarrow> session_ref \<Rightarrow> 'st EventStreamMessage
    \<Rightarrow> ('mw, 'mp, 'mc) ControlPlaneStateStore \<times> 'st EventStreamMessage session_heap
    \<Rightarrow> (go_error option \<times> ('mw, 'mp, 'mc) ControlPlaneStateStore \<times> 'st EventStreamMessage session_heap) option" where
  "handleEventAsync D S NewStruct clock now pick handlers session msg = (\<lambda>(s, h).
     (case handleEvent D S NewStruct clock handlers msg s of
        (result, s') \<Rightarrow>
          map_option (\<lambda>(err, sess). (err, s', h(session := sess)))
            (Send pick (ackOf NewStruct now (ss_ServerId (h session)) msg result) (h session))))"

subsection \<open>The receive loop\<close>

datatype 'st recvResult = RecvMsg "'st EventStreamMessage" | RecvEOF | RecvErr go_error

text \<open>
  The receiving goroutine forwards what the stream delivers up to and including the first error,
  and stops early once the session is done (after the given number of results).
\<close>

fun forwardResults :: "'st recvResult list \<Rightarrow> 'st recvResult list" where
  "forwardResults [] = []"
| "forwardResults (RecvMsg m # rs) = RecvMsg m # forwardResults rs"
| "forwardResults (r # rs) = [r]"

definition receiveWorkerMessages :: "nat option \<Rightarrow> 'st recvResult list \<Rightarrow> 'st recvResult list" where
  "receiveWorkerMessages done rs =
     (case done of None \<Rightarrow> forwardResults rs | Some n \<Rightarrow> take n (forwardResults rs))"

text \<open>What one \<open>select\<close> of the loop gets, and how a turn ends.\<close>

datatype 'st loop_input = SessionDone | RecvClosed | Received "'st recvResult"

datatype ('st, 'c) turn =
  Continue 'c "'st EventStreamMessage"
  | Return 'c "rpc_error option"
  | Crashed 'c string

definition coordinateStep ::
  "(string, session_ref, 'm) xmap \<Rightarrow> session_ref \<Rightarrow> 'st loop_input
    \<Rightarrow> string \<times> 'm SessionManager \<times> 'msg session_heap
    \<Rightarrow> ('st, string \<times> 'm SessionManager \<times> 'msg session_heap) turn" where
  "coordinateStep X session input c =
     (case input of
        SessionDone \<Rightarrow>
          Return c (Some (StatusError FailedPrecondition ''control plane leadership changed; reconnect to the leader''))
      | RecvClosed \<Rightarrow> Return c None
      | Received RecvEOF \<Rightarrow> Return c None
      | Received (RecvErr err) \<Rightarrow> Return c (Some (PlainError err))
      | Received (RecvMsg msg) \<Rightarrow>
        (case em_Payload msg of
           Some (Payload_Register reg) \<Rightarrow>
             (case re_Worker reg of
                None \<Rightarrow> Crashed c nil_deref
              | Some w \<Rightarrow>
                (case Register X (w_NodeId w) session (snd c) of
                   Ok st \<Rightarrow> Continue (w_NodeId w, st) msg
                 | Err e \<Rightarrow> Crashed c e
                 | Panic p \<Rightarrow> Crashed (w_NodeId w, snd c) p))
         | _ \<Rightarrow> Continue c msg))"

text \<open>The deferred function: the worker is removed and the session closed.\<close>

definition coordinateExit ::
  "(string, session_ref, 'm) xmap \<Rightarrow> session_ref \<Rightarrow> string \<times> 'm SessionManager \<times> 'msg session_heap
    \<Rightarrow> ('m SessionManager \<times> 'msg session_heap) outcome" where
  "coordinateExit X session = (\<lambda>(workerID, sm, h).
     (let sm' = (if workerID \<noteq> '''' then Unregister X workerID sm else sm)
      in case Close (h session) of
           Ok s \<Rightarrow> Ok (sm', h(session := s))
         | Err e \<Rightarrow> Err e
         | Panic p \<Rightarrow> Panic p))"

text \<open>The loop over the inputs of one stream; \<^term>\<open>None\<close>: it waits for more.  The list holds the started goroutines.\<close>

fun coordinateLoop ::
  "(string, session_ref, 'm) xmap \<Rightarrow> session_ref \<Rightarrow> 'st loop_input list \<Rightarrow> string \<times> 'm SessionManager \<times> 'msg session_heap
    \<Rightarrow> 'st EventStreamMessage list
    \<Rightarrow> (rpc_error option outcome \<times> (string \<times> 'm SessionManager \<times> 'msg session_heap) \<times> 'st EventStreamMessage list) option" where
  "coordinateLoop X session [] c started = None"
| "coordinateLoop X session (input # inputs) c started =
     (case coordinateStep X session input c of
        Continue c' msg \<Rightarrow> coordinateLoop X session inputs c' (started @ [msg])
      | Return c' err \<Rightarrow> Some (Ok err, c', started)
      | Crashed c' p \<Rightarrow> Some (Panic p, c', started))"

definition CoordinateWorker ::
  "(string, session_ref, 'm) xmap \<Rightarrow> LeibrixConfig \<Rightarrow> LeadershipProvider option \<Rightarrow> go_error option \<Rightarrow> session_ref \<Rightarrow> 'st loop_input list
    \<Rightarrow> 'm SessionManager \<times> 'msg session_heap
    \<Rightarrow> (rpc_error option outcome \<times> ('m SessionManager \<times> 'msg session_heap) \<times> 'st EventStreamMessage list) option" where
  "CoordinateWorker X config leadership streamErr session inputs = (\<lambda>(sm, h).
     (case requireLeader leadership (nc_NodeName (lc_Node config)) of
        Some err \<Rightarrow> Some (Ok (Some err), (sm, h), [])
      | None \<Rightarrow>
        (case coordinateLoop X session inputs
                ('''', sm, h(session := NewSession streamErr (nc_NodeName (lc_Node config)))) [] of
           None \<Rightarrow> None
         | Some (result, c, started) \<Rightarrow>
             (case coordinateExit X session c of
                Ok st \<Rightarrow> Some (result, st, started)
              | Err e \<Rightarrow> Some (Panic e, snd c, started)
              | Panic p \<Rightarrow> Some (Panic p, snd c, started)))))"

text \<open>The service itself; the state store is shared by its handlers.\<close>

record ('md, 'm, 'mw, 'mp, 'mc) ControlPlaneService =
  cps_handlers :: 'md
  cps_sessionManager :: "'m SessionManager"
  cps_config :: LeibrixConfig
  cps_leadership :: "LeadershipProvider option"
  cps_state :: "('mw, 'mp, 'mc) ControlPlaneStateStore"

definition NewControlPlaneService ::
  "(string, EventHandler, 'md) xmap \<Rightarrow> ('st, 'mw, 'mp, 'mc) store_maps \<Rightarrow> LeibrixConfig \<Rightarrow> 'md \<Rightarrow> 'm SessionManager
    \<Rightarrow> LeadershipProvider option \<Rightarrow> ('md, 'm, 'mw, 'mp, 'mc) ControlPlaneService" where
  "NewControlPlaneService D S config dispatcher sessionManager leadership =
     \<lparr>cps_handlers = RegisterAllEventHandlers D config dispatcher,
      cps_sessionManager = sessionManager, cps_config = config, cps_leadership = leadership,
      cps_state = NewControlPlaneStateStore S\<rparr>"

subsection \<open>What events do\<close>

locale state_maps =
  fixes S :: "('st, 'mw, 'mp, 'mc) store_maps"
  assumes workers_map: "xsync_map (xs_workers S)"
    and pullStates_map: "xsync_map (xs_pullStates S)"
    and commonAcks_map: "xsync_map (xs_commonAcks S)"
begin

lemma UpsertWorker_lookup [simp]:
  "Worker_lookup S wid (UpsertWorker S (Some w) s) = (if wid = w_NodeId w then Some w else Worker_lookup S wid s)"
  "PullStatus S d e (UpsertWorker S w' s) = PullStatus S d e s"
  "CommonAck S d e (UpsertWorker S w' s) = CommonAck S d e s"
  using xsync_map.Load_Store [OF workers_map]
  by (simp_all add: Worker_lookup_def UpsertWorker_def PullStatus_def CommonAck_def split: option.splits)

lemma UpdatePullStatus_lookup [simp]:
  "PullStatus S d e (UpdatePullStatus S (Some u) s) =
     (if pullStatusKey d e = pullStatusKey (dps_DatasetId u) (dps_EpochId u) then Some u else PullStatus S d e s)"
  "Worker_lookup S wid (UpdatePullStatus S u' s) = Worker_lookup S wid s"
  "CommonAck S d e (UpdatePullStatus S u' s) = CommonAck S d e s"
  using xsync_map.Load_Store [OF pullStates_map]
  by (simp_all add: Worker_lookup_def UpdatePullStatus_def PullStatus_def CommonAck_def split: option.splits)

lemma RecordCommonAck_lookup [simp]:
  "CommonAck S d e (RecordCommonAck S (Some a) s) =
     (if commonAckKey d e = commonAckKey (ca_ServerId a) (ca_EventType a) then Some a else CommonAck S d e s)"
  "Worker_lookup S wid (RecordCommonAck S a' s) = Worker_lookup S wid s"
  "PullStatus S d e (RecordCommonAck S a' s) = PullStatus S d e s"
  using xsync_map.Load_Store [OF commonAcks_map]
  by (simp_all add: Worker_lookup_def RecordCommonAck_def PullStatus_def CommonAck_def split: option.splits)

end

abbreviation fmap_store_maps ::
  "('st, (string, Worker) fmap, (string, DataPullStatusUpdateEvent) fmap, (string, 'st CommonAckEvent) fmap) store_maps" where
  "fmap_store_maps \<equiv> \<lparr>xs_workers = fmap_xmap, xs_pullStates = fmap_xmap, xs_commonAcks = fmap_xmap\<rparr>"

interpretation fmap_state: state_maps fmap_store_maps
  by (rule state_maps.intro) (simp_all add: fmap_xsync.xsync_map_axioms)

text \<open>The events a worker may report: a registration or an update must name what it is about.\<close>

fun valid_event :: "'st payload \<Rightarrow> bool" where
  "valid_event (Payload_Register e) = (\<exists>w. re_Worker e = Some w \<and> w_NodeId w \<noteq> '''')"
| "valid_event Payload_Heartbeat = True"
| "valid_event (Payload_DataPullStatus u) = (dps_DatasetId u \<noteq> '''' \<and> dps_EpochId u \<noteq> '''')"
| "valid_event (Payload_DataAssignment e) = False"
| "valid_event (Payload_CommonAck a) = (ca_ServerId a \<noteq> '''')"

lemma all_handlers:
  assumes "xsync_map D"
  shows "xm_Load D (RegisterAllEventHandlers D config (xm_New D)) =
    [EventTypeHeartbeat \<mapsto> HeartbeatHandler (nc_NodeName (lc_Node config)),
     EventTypeRegister \<mapsto> RegisterHandler (nc_NodeName (lc_Node config)),
     EventTypeDataPullState \<mapsto> DataPullStateHandler (nc_NodeName (lc_Node config)),
     EventTypeCommonAck \<mapsto> CommonAckHandler (nc_NodeName (lc_Node config))]"
  by (simp add: RegisterAllEventHandlers_def Dispatcher_Register_def Let_def
      xsync_map.LoadOrStore_new [OF assms] xsync_map.Load_New [OF assms])

text \<open>
  C32: what an event does.  Exactly the valid events succeed; an event that fails leaves the state
  as it was; a registration, a pull status and an acknowledgement can afterwards be looked up as
  they were reported, and a registration changes no other worker.
\<close>

theorem handleEvent_records:
  assumes "xsync_map D" and "state_maps S" and "em_Payload msg = Some p"
    and "handleEvent D S NewStruct clock (RegisterAllEventHandlers D config (xm_New D)) msg s = (r, s')"
  shows "(isl r \<longleftrightarrow> \<not> valid_event p) \<and> (isl r \<longrightarrow> s' = s)
    \<and> (valid_event p \<longrightarrow>
        (case p of
           Payload_Register e \<Rightarrow> \<exists>w. re_Worker e = Some w
             \<and> (\<forall>wid. Worker_lookup S wid s' = (if wid = w_NodeId w then Some w else Worker_lookup S wid s))
         | Payload_DataPullStatus u \<Rightarrow> PullStatus S (dps_DatasetId u) (dps_EpochId u) s' = Some u
         | Payload_CommonAck a \<Rightarrow> CommonAck S (ca_ServerId a) (ca_EventType a) s' = Some a
         | _ \<Rightarrow> s' = s))"
  using assms(3,4) all_handlers [OF assms(1), of config]
    state_maps.UpsertWorker_lookup [OF assms(2)] state_maps.UpdatePullStatus_lookup [OF assms(2)]
    state_maps.RecordCommonAck_lookup [OF assms(2)]
  by (cases p) (auto simp: handleEvent_def Dispatch_def OnEvent_def Heartbeat_OnEvent_def Register_OnEvent_def
      DataPull_OnEvent_def CommonAck_OnEvent_def split: option.splits if_splits)

definition w1_registration :: "string EventStreamMessage" where
  "w1_registration = \<lparr>em_EventId = ''e1'', em_TenantId = '''', em_WorkerId = ''w1'',
     em_Payload = Some (Payload_Register \<lparr>re_Worker = Some \<lparr>w_NodeId = ''w1'', w_Addr = ''host:1'', w_Labels = fmempty\<rparr>\<rparr>)\<rparr>"

theorem handleEvent_records_witness:
  "\<exists>r s'. handleEvent fmap_xmap fmap_store_maps (\<lambda>m. Inr ''struct'') (1, 2)
      (RegisterAllEventHandlers fmap_xmap example_config (xm_New fmap_xmap)) w1_registration (NewControlPlaneStateStore fmap_store_maps) = (r, s')
    \<and> \<not> isl r \<and> Worker_lookup fmap_store_maps ''w1'' s' \<noteq> None"
proof -
  obtain r s' where event: "handleEvent fmap_xmap fmap_store_maps (\<lambda>m. Inr ''struct'') (1, 2)
      (RegisterAllEventHandlers fmap_xmap example_config (xm_New fmap_xmap)) w1_registration (NewControlPlaneStateStore fmap_store_maps) = (r, s')"
    by (metis surj_pair)
  from handleEvent_records [OF fmap_xsync.xsync_map_axioms fmap_state.state_maps_axioms _ this]
  show ?thesis using event by (simp add: w1_registration_def)
qed

text \<open>Dataset ids that contain a slash share their pull status with other epochs.\<close>

lemma pullStatusKey_collision: "pullStatusKey (d @ ''/'' @ e) f = pullStatusKey d (e @ ''/'' @ f)"
  by (simp add: pullStatusKey_def)

lemma pullStatusKey_inj:
  "CHR ''/'' \<notin> set d \<Longrightarrow> CHR ''/'' \<notin> set d' \<Longrightarrow> pullStatusKey d e = pullStatusKey d' e' \<longleftrightarrow> d = d' \<and> e = e'"
  by (simp add: pullStatusKey_def slash_inj)

text \<open>
  C33: every message is answered with one acknowledgement: the goroutine that handles a message on a
  session appends exactly one acknowledgement to the session's channel or reports why it could
  not; the acknowledgement is an error acknowledgement exactly when the event is not valid.
\<close>

theorem handleEventAsync_answers:
  assumes "xsync_map D" and "state_maps S"
    and "handleEventAsync D S NewStruct clock now pick (RegisterAllEventHandlers D config (xm_New D)) session msg (s, h) =
      Some (err, s', h')"
  shows "\<exists>ack ca. em_Payload ack = Some (Payload_CommonAck ca)
    \<and> (ca_EventType ca = ''error_ack'' \<longleftrightarrow> (case em_Payload msg of None \<Rightarrow> True | Some p \<Rightarrow> \<not> valid_event p))
    \<and> ss_outbox (h' session) = ss_outbox (h session) @ (if err = None then [ack] else [])
    \<and> (\<forall>q. q \<noteq> session \<longrightarrow> h' q = h q)"
proof -
  obtain result where event: "handleEvent D S NewStruct clock (RegisterAllEventHandlers D config (xm_New D)) msg s = (result, s')"
    and sent: "\<exists>sess. Send pick (ackOf NewStruct now (ss_ServerId (h session)) msg result) (h session) = Some (err, sess)
      \<and> h' = h(session := sess)"
    using assms(3) by (auto simp: handleEventAsync_def split: prod.splits)
  have "\<exists>ca. em_Payload (ackOf NewStruct now (ss_ServerId (h session)) msg result) = Some (Payload_CommonAck ca)
      \<and> (ca_EventType ca = ''error_ack'' \<longleftrightarrow> (case em_Payload msg of None \<Rightarrow> True | Some p \<Rightarrow> \<not> valid_event p))"
    using event all_handlers [OF assms(1), of config]
    by (auto simp: handleEvent_def Dispatch_def OnEvent_def Heartbeat_OnEvent_def Register_OnEvent_def
      DataPull_OnEvent_def CommonAck_OnEvent_def ackOf_def CreateCommonAckEvent_def
      split: option.splits payload.splits if_splits)
  with sent show ?thesis by (fastforce dest: Send_effect)
qed

theorem handleEventAsync_answers_witness:
  "\<exists>err s' h' ack ca. handleEventAsync fmap_xmap fmap_store_maps (\<lambda>m. Inr ''struct'') (1, 2) 3 0
      (RegisterAllEventHandlers fmap_xmap example_config (xm_New fmap_xmap)) 1 w1_registration
      (NewControlPlaneStateStore fmap_store_maps, \<lambda>r. NewSession None ''node1'') = Some (err, s', h')
    \<and> em_Payload ack = Some (Payload_CommonAck ca) \<and> ca_EventType ca \<noteq> ''error_ack''
    \<and> ss_outbox (h' 1) = (if err = None then [ack] else [])"
proof -
  obtain r s1 where "handleEvent fmap_xmap fmap_store_maps (\<lambda>m. Inr ''struct'') (1, 2)
      (RegisterAllEventHandlers fmap_xmap example_config (xm_New fmap_xmap)) w1_registration
      (NewControlPlaneStateStore fmap_store_maps) = (r, s1)" by (metis surj_pair)
  then obtain err s' h' where run: "handleEventAsync fmap_xmap fmap_store_maps (\<lambda>m. Inr ''struct'') (1, 2) 3 0
      (RegisterAllEventHandlers fmap_xmap example_config (xm_New fmap_xmap)) 1 w1_registration
      (NewControlPlaneStateStore fmap_store_maps, \<lambda>r. NewSession None ''node1'') = Some (err, s', h')"
    by (simp add: handleEventAsync_def Send_def SendSelect_def select_case_def NewSession_def)
  from handleEventAsync_answers [OF fmap_xsync.xsync_map_axioms fmap_state.state_maps_axioms this] run
  show ?thesis by (fastforce simp: w1_registration_def NewSession_def)
qed

subsection \<open>What a stream leaves behind\<close>

lemma coordinateStep_refines:
  assumes "session_map X" and "refines X (sm, h) a"
    and "coordinateStep X session input (wid, sm, h) = Continue (wid', sm', h') msg"
  shows "\<exists>a'. refines X (sm', h') a' \<and>
    (case em_Payload msg of
       Some (Payload_Register e) \<Rightarrow> \<exists>w. re_Worker e = Some w \<and> wid' = w_NodeId w
         \<and> a' = spec_exec (SmRegister (w_NodeId w) session) a
     | _ \<Rightarrow> wid' = wid \<and> a' = a)"
proof (cases "\<exists>e. em_Payload msg = Some (Payload_Register e)")
  case True
  then obtain e w where e: "em_Payload msg = Some (Payload_Register e)" "re_Worker e = Some w"
    "Register X (w_NodeId w) session (sm, h) = Ok (sm', h')" "wid' = w_NodeId w"
    using assms(3)
    by (auto simp: coordinateStep_def split: loop_input.splits recvResult.splits option.splits payload.splits outcome.splits)
  from session_map.refines_exec [OF assms(1,2), of "SmRegister (w_NodeId w) session"] e show ?thesis by auto
next
  case False
  with assms(2,3) show ?thesis
    by (auto simp: coordinateStep_def split: loop_input.splits recvResult.splits option.splits payload.splits outcome.splits)
qed

lemma coordinateStep_stop:
  assumes "session_map X" and "refines X (sm, h) a"
    and "coordinateStep X session input (wid, sm, h) = Return c err \<or> coordinateStep X session input (wid, sm, h) = Crashed c p"
  shows "c = (wid, sm, h)"
proof -
  have "\<exists>st. Register X w session (sm, h) = Ok st" for w
    using session_map.refines_exec [OF assms(1,2), of "SmRegister w session"] by auto
  then obtain f where "\<And>w. Register X w session (sm, h) = Ok (f w)" by metis
  with assms(3) show ?thesis
    by (auto simp: coordinateStep_def split: loop_input.splits recvResult.splits option.splits payload.splits)
qed

text \<open>All registrations of the inputs name the worker \<open>w\<close>.\<close>

definition registers_only :: "string \<Rightarrow> 'st loop_input list \<Rightarrow> bool" where
  "registers_only w inputs \<longleftrightarrow>
     (\<forall>msg e v. Received (RecvMsg msg) \<in> set inputs \<longrightarrow> em_Payload msg = Some (Payload_Register e)
        \<longrightarrow> re_Worker e = Some v \<longrightarrow> w_NodeId v = w)"

lemma coordinateStep_msg:
  "coordinateStep X session input c = Continue c' msg \<Longrightarrow> input = Received (RecvMsg msg)"
  by (auto simp: coordinateStep_def split: loop_input.splits recvResult.splits option.splits payload.splits outcome.splits)

lemma coordinateLoop_refines:
  assumes "session_map X" and "w \<noteq> ''''"
    and "coordinateLoop X session inputs (wid, sm, h) started = Some (result, (wid', sm', h'), started')"
    and "refines X (sm, h) a" and "registers_only w inputs" and "\<forall>v. connected a v = Some session \<longrightarrow> v = wid \<and> v \<noteq> ''''"
    and "wid \<in> {'''', w}"
  shows "\<exists>a'. refines X (sm', h') a' \<and> (\<forall>v. connected a' v = Some session \<longrightarrow> v = wid' \<and> v \<noteq> '''')"
  using assms(3-)
proof (induction inputs arbitrary: wid sm h started a)
  case (Cons input inputs)
  show ?case
  proof (cases "coordinateStep X session input (wid, sm, h)")
    case (Continue c msg)
    obtain wid1 sm1 h1 where c: "c = (wid1, sm1, h1)" by (cases c)
    note step = Continue [unfolded c]
    obtain a1 where a1: "refines X (sm1, h1) a1" "(\<forall>v. connected a1 v = Some session \<longrightarrow> v = wid1 \<and> v \<noteq> '''') \<and> wid1 \<in> {'''', w}"
      using coordinateStep_refines [OF assms(1) Cons.prems(2) step] Cons.prems(3-5) coordinateStep_msg [OF step] assms(2)
      by (fastforce simp: registers_only_def split: option.splits payload.splits if_splits)
    have "registers_only w inputs" using Cons.prems(3) by (auto simp: registers_only_def)
    with Cons.IH [of wid1 sm1 h1 _ a1] a1 Cons.prems(1) Continue c show ?thesis by auto
  next
    case (Return c err)
    with coordinateStep_stop [OF assms(1) Cons.prems(2)] have "c = (wid, sm, h)" by blast
    with Return Cons.prems show ?thesis by auto
  next
    case (Crashed c p)
    with coordinateStep_stop [OF assms(1) Cons.prems(2)] have "c = (wid, sm, h)" by blast
    with Crashed Cons.prems show ?thesis by auto
  qed
qed simp

lemma coordinateExit_refines:
  assumes "session_map X" and "refines X (sm, h) a"
    and "\<forall>v. connected a v = Some session \<longrightarrow> v = wid \<and> v \<noteq> ''''"
  shows "\<exists>sm' h' a'. coordinateExit X session (wid, sm, h) = Ok (sm', h') \<and> refines X (sm', h') a'
    \<and> session \<notin> ran (connected a') \<and> session \<in> ended a'"
proof -
  let ?sm = "if wid \<noteq> '''' then Unregister X wid sm else sm"
  let ?a = "if wid \<noteq> '''' then spec_exec (SmUnregister wid) a else a"
  have ref: "refines X (?sm, h) ?a"
    using session_map.refines_exec [OF assms(1,2), of "SmUnregister wid"] assms(2) by auto
  then obtain s where s: "Close (h session) = Ok s" "sound_session s" "ss_closed s"
    using Close_sound unfolding refines_def by (metis snd_conv)
  have "session \<notin> ran (connected ?a)" using assms(3) by (auto simp: ran_def split: if_splits)
  moreover have "refines X (?sm, h(session := s)) (?a\<lparr>ended := insert session (ended ?a)\<rparr>)"
    using ref s by (auto simp: refines_def)
  ultimately show ?thesis using s(1) by (auto simp: coordinateExit_def Let_def)
qed

text \<open>
  When a worker's call ends, for whatever reason, its session is closed, no worker is
  connected through it any more, and the manager still meets its specification (so its counter is
  the number of connected workers).  The stream's registrations may repeat, but must name one
  worker.
\<close>

lemma CoordinateWorker_cleanup:
  assumes "session_map X" and "refines X (sm, h) a" and "session \<notin> ran (connected a)"
    and "w \<noteq> ''''" and "registers_only w inputs"
    and "requireLeader leadership (nc_NodeName (lc_Node config)) = None"
    and "CoordinateWorker X config leadership streamErr session inputs (sm, h) = Some (result, (sm', h'), started)"
  shows "ss_closed (h' session) \<and> (\<forall>v. Get X v sm' \<noteq> Some session) \<and> (\<exists>a'. refines X (sm', h') a')"
proof -
  let ?h = "h(session := NewSession streamErr (nc_NodeName (lc_Node config)))"
  have start: "refines X (sm, ?h) (a\<lparr>ended := ended a - {session}\<rparr>)"
    using assms(2) by (auto simp: refines_def NewSession_def sound_session_def)
  obtain r wid sm1 h1 where "coordinateLoop X session inputs ('''', sm, ?h) [] = Some (r, (wid, sm1, h1), started)"
    and exit: "\<And>st. coordinateExit X session (wid, sm1, h1) = Ok st \<Longrightarrow> st = (sm', h')"
    using assms(6,7) by (fastforce simp: CoordinateWorker_def split: option.splits outcome.splits)
  from coordinateLoop_refines [OF assms(1,4) this(1) start assms(5)] assms(3) obtain a1 where
    "refines X (sm1, h1) a1" "\<forall>v. connected a1 v = Some session \<longrightarrow> v = wid \<and> v \<noteq> ''''"
    by (auto simp: ran_def)
  from coordinateExit_refines [OF assms(1) this] exit obtain a' where
    a': "refines X (sm', h') a'" "session \<notin> ran (connected a')" "session \<in> ended a'" by auto
  then show ?thesis by (auto simp: refines_def Get_def ran_def)
qed

definition no_sessions :: "(string, session_ref) fmap SessionManager \<times> string EventStreamMessage session_heap" where
  "no_sessions = (NewSessionManager fmap_xmap, \<lambda>r. NewSession None ''node1'')"

lemma no_sessions_refines: "refines fmap_xmap no_sessions \<lparr>connected = Map.empty, ended = {}\<rparr>"
  using fmap_sessions.refines_new [of "\<lambda>r. NewSession None ''node1'' :: string EventStreamMessage Session"]
  by (simp add: no_sessions_def sound_session_def NewSession_def)

lemma CoordinateWorker_cleanup_witness:
  "\<exists>sm' h' started. CoordinateWorker fmap_xmap example_config None None 1
      [Received (RecvMsg w1_registration), Received RecvEOF] no_sessions = Some (Ok None, (sm', h'), started)
    \<and> ss_closed (h' 1) \<and> (\<forall>v. Get fmap_xmap v sm' \<noteq> Some 1)"
proof -
  have "\<exists>sm' h' started. CoordinateWorker fmap_xmap example_config None None 1
      [Received (RecvMsg w1_registration), Received RecvEOF] no_sessions = Some (Ok None, (sm', h'), started)"
    by (simp add: CoordinateWorker_def coordinateStep_def coordinateExit_def no_sessions_def w1_registration_def
        Register_def NewSessionManager_def NewSession_def Close_def closeOutbox_def cancel_def xmap_simps Let_def)
  then obtain sm' h' started where run: "CoordinateWorker fmap_xmap example_config None None 1
      [Received (RecvMsg w1_registration), Received RecvEOF] no_sessions = Some (Ok None, (sm', h'), started)" by blast
  have "registers_only ''w1'' [Received (RecvMsg w1_registration), Received RecvEOF]"
    by (simp add: registers_only_def w1_registration_def)
  with CoordinateWorker_cleanup [OF fmap_sessions.session_map_axioms no_sessions_refines [unfolded no_sessions_def] _ _ _ _
      run [unfolded no_sessions_def], of "''w1''"] run
  show ?thesis by auto
qed

text \<open>
  C36: a reconnecting worker is lost.  The worker registers on one stream and, before that stream's
  handler has noticed its end, again on a second one.  The first handler's deferred call then
  removes the worker, although the worker's second session is open: the manager no longer reaches
  it.
\<close>

theorem reconnect_disconnects:
  assumes "session_map X" and "refines X (sm, h) a" and "connected a w = None" and "w \<noteq> ''''"
    and "em_Payload m1 = Some (Payload_Register \<lparr>re_Worker = Some v\<rparr>)" and "em_Payload m2 = em_Payload m1" and "w_NodeId v = w"
    and "r1 \<noteq> r2" and "\<not> ss_closed (h r2)"
  shows "\<exists>st1 st2 sm3 h3.
      coordinateStep X r1 (Received (RecvMsg m1)) ('''', sm, h) = Continue (w, st1) m1
    \<and> coordinateStep X r2 (Received (RecvMsg m2)) ('''', st1) = Continue (w, st2) m2
    \<and> coordinateExit X r1 (w, st2) = Ok (sm3, h3)
    \<and> \<not> ss_closed (h3 r2)
    \<and> ToWorker X pick w msg sm3 h3 = Some (Some (''worker '' @ w @ '' not connected''), h3)"
proof -
  from session_map.refines_exec [OF assms(1,2), of "SmRegister w r1"] obtain sm1 h1 where
    one: "Register X w r1 (sm, h) = Ok (sm1, h1)" "refines X (sm1, h1) (spec_exec (SmRegister w r1) a)" by auto
  from session_map.refines_exec [OF assms(1) one(2), of "SmRegister w r2"] obtain sm2 h2 where
    two: "Register X w r2 (sm1, h1) = Ok (sm2, h2)"
      "refines X (sm2, h2) (spec_exec (SmRegister w r2) (spec_exec (SmRegister w r1) a))" by auto
  have three: "refines X (Unregister X w sm2, h2) (spec_exec (SmUnregister w) (spec_exec (SmRegister w r2) (spec_exec (SmRegister w r1) a)))"
    using session_map.refines_exec [OF assms(1) two(2), of "SmUnregister w"] by auto
  obtain s where s: "Close (h2 r1) = Ok s" using two(2) Close_sound unfolding refines_def by (metis snd_conv)
  have "r2 \<notin> ended a" using assms(2,9) by (auto simp: refines_def)
  then have "\<not> ss_closed (h2 r2)"
    using two(2) assms(3,8) by (auto simp: refines_def)
  moreover have "xm_Load X (sm_sessions (Unregister X w sm2)) w = None" using three by (simp add: refines_def)
  ultimately show ?thesis
    using one(1) two(1) s assms(4-8)
    by (simp add: coordinateStep_def coordinateExit_def ToWorker_def Let_def)
qed

theorem reconnect_disconnects_witness:
  "\<exists>st1 st2 sm3 h3.
      coordinateStep fmap_xmap 1 (Received (RecvMsg w1_registration)) ('''', no_sessions) = Continue (''w1'', st1) w1_registration
    \<and> coordinateStep fmap_xmap 2 (Received (RecvMsg w1_registration)) ('''', st1) = Continue (''w1'', st2) w1_registration
    \<and> coordinateExit fmap_xmap 1 (''w1'', st2) = Ok (sm3, h3)
    \<and> \<not> ss_closed (h3 2)
    \<and> ToWorker fmap_xmap 0 ''w1'' w1_registration sm3 h3 = Some (Some ''worker w1 not connected'', h3)"
  using reconnect_disconnects [OF fmap_sessions.session_map_axioms no_sessions_refines [unfolded no_sessions_def],
      of "''w1''" w1_registration "\<lparr>w_NodeId = ''w1'', w_Addr = ''host:1'', w_Labels = fmempty\<rparr>" w1_registration 1 2 0 w1_registration]
  by (simp add: w1_registration_def NewSession_def no_sessions_def)

end
