(* ===== verification/Transition_Runs.thy ===== *)
theory Transition_Runs
  imports Leibrix_Prelude
begin

text \<open>
  What the concurrent components share beyond reachability: labelled steps as executable functions,
  simulations with stuttering, and infinite runs with weak fairness.  A run may stutter, so that a
  system that stops has infinite runs too; fairness says that an action that stays possible is
  taken at some time.
\<close>

subsection \<open>Labelled steps\<close>

text \<open>A machine whose step function says what a label does, or that it cannot happen.\<close>

definition lstep :: "('l \<Rightarrow> 's \<Rightarrow> 's option) \<Rightarrow> 's \<Rightarrow> 's \<Rightarrow> bool" where
  "lstep exec s s' \<longleftrightarrow> (\<exists>l. exec l s = Some s')"

fun exec_labels :: "('l \<Rightarrow> 's \<Rightarrow> 's option) \<Rightarrow> 'l list \<Rightarrow> 's \<Rightarrow> 's option" where
  "exec_labels exec [] s = Some s"
| "exec_labels exec (l # ls) s = (case exec l s of None \<Rightarrow> None | Some s' \<Rightarrow> exec_labels exec ls s')"

lemma exec_labels_reachable:
  "reachable init (lstep exec) s \<Longrightarrow> exec_labels exec ls s = Some s' \<Longrightarrow> reachable init (lstep exec) s'"
proof (induction ls arbitrary: s)
  case (Cons l ls)
  then obtain s1 where s1: "exec l s = Some s1" "exec_labels exec ls s1 = Some s'" by (auto split: option.splits)
  then have "lstep exec s s1" by (auto simp: lstep_def)
  from Cons.IH [OF reachable_step [OF Cons.prems(1) this] s1(2)] show ?case .
qed simp

lemma exec_labels_append:
  "exec_labels exec (xs @ ys) s = (case exec_labels exec xs s of None \<Rightarrow> None | Some s' \<Rightarrow> exec_labels exec ys s')"
  by (induction xs arbitrary: s) (auto split: option.splits)

lemma exec_labels_from_init:
  "exec_labels exec ls s0 = Some s \<Longrightarrow> reachable (\<lambda>s. s = s0) (lstep exec) s"
  by (rule exec_labels_reachable [OF reachable_init]) simp_all

text \<open>A machine that is used in a restricted way: only some labels happen.\<close>

definition restrict :: "('l \<Rightarrow> bool) \<Rightarrow> ('l \<Rightarrow> 's \<Rightarrow> 's option) \<Rightarrow> 'l \<Rightarrow> 's \<Rightarrow> 's option" where
  "restrict P exec l s = (if P l then exec l s else None)"

lemma restrict_Some [simp]: "restrict P exec l s = Some s' \<longleftrightarrow> P l \<and> exec l s = Some s'"
  by (simp add: restrict_def)

lemma exec_labels_restrict: "\<forall>l \<in> set ls. P l \<Longrightarrow> exec_labels (restrict P exec) ls s = exec_labels exec ls s"
  by (induction ls arbitrary: s) (auto simp: restrict_def split: option.splits)

subsection \<open>Simulation\<close>

lemma reachable_simulation:
  assumes "reachable init1 step1 s"
    and "\<And>s. init1 s \<Longrightarrow> \<exists>t. init2 t \<and> R s t"
    and "\<And>s s' t. R s t \<Longrightarrow> step1 s s' \<Longrightarrow> R s' t \<or> (\<exists>t'. step2 t t' \<and> R s' t')"
  shows "\<exists>t. reachable init2 step2 t \<and> R s t"
  using assms(1)
proof induction
  case (reachable_init s)
  then show ?case using assms(2) by (meson reachable.reachable_init)
next
  case (reachable_step s s')
  then obtain t where "reachable init2 step2 t" "R s t" by blast
  with assms(3) [OF \<open>R s t\<close> reachable_step.hyps(2)] show ?case by (meson reachable.reachable_step)
qed

subsection \<open>Runs and fairness\<close>

definition is_run :: "('s \<Rightarrow> 's \<Rightarrow> bool) \<Rightarrow> (nat \<Rightarrow> 's) \<Rightarrow> bool" where
  "is_run step \<sigma> \<longleftrightarrow> (\<forall>n. \<sigma> (Suc n) = \<sigma> n \<or> step (\<sigma> n) (\<sigma> (Suc n)))"

definition weakly_fair :: "('s \<Rightarrow> 's \<Rightarrow> bool) \<Rightarrow> (nat \<Rightarrow> 's) \<Rightarrow> bool" where
  "weakly_fair act \<sigma> \<longleftrightarrow> (\<forall>i. \<exists>j\<ge>i. act (\<sigma> j) (\<sigma> (Suc j)) \<or> (\<nexists>s'. act (\<sigma> j) s'))"

lemma is_run_suffix: "is_run step \<sigma> \<Longrightarrow> is_run step (\<lambda>n. \<sigma> (k + n))"
  by (simp add: is_run_def)

lemma weakly_fair_suffix:
  assumes "weakly_fair act \<sigma>"
  shows "weakly_fair act (\<lambda>n. \<sigma> (k + n))"
  unfolding weakly_fair_def
proof
  fix i
  from assms obtain j where "k + i \<le> j" "act (\<sigma> j) (\<sigma> (Suc j)) \<or> (\<nexists>s'. act (\<sigma> j) s')"
    unfolding weakly_fair_def by blast
  then show "\<exists>j\<ge>i. act (\<sigma> (k + j)) (\<sigma> (k + Suc j)) \<or> (\<nexists>s'. act (\<sigma> (k + j)) s')"
    by (intro exI [of _ "j - k"]) (simp add: le_diff_conv2)
qed

text \<open>
  Fairness to two actions is fairness to their union, if the second one stays possible until it
  happens.
\<close>

lemma weakly_fair_either:
  assumes "is_run step \<sigma>" and "weakly_fair a \<sigma>" and "weakly_fair b \<sigma>"
    and stays: "\<And>s s'. step s s' \<Longrightarrow> \<exists>t. b s t \<Longrightarrow> b s s' \<or> (\<exists>t. b s' t)"
  shows "weakly_fair (\<lambda>s s'. a s s' \<or> b s s') \<sigma>"
  unfolding weakly_fair_def
proof
  fix i
  from assms(2) obtain j where j: "i \<le> j" "a (\<sigma> j) (\<sigma> (Suc j)) \<or> (\<nexists>s'. a (\<sigma> j) s')" unfolding weakly_fair_def by blast
  from assms(3) obtain k where k: "j \<le> k" "b (\<sigma> k) (\<sigma> (Suc k)) \<or> (\<nexists>s'. b (\<sigma> k) s')" unfolding weakly_fair_def by blast
  have "(\<exists>n\<ge>j. b (\<sigma> n) (\<sigma> (Suc n))) \<or> (\<exists>s'. b (\<sigma> k) s')" if "\<exists>s'. b (\<sigma> j) s'"
    using k(1)
  proof (induction k rule: dec_induct)
    case (step n)
    then show ?case using assms(1) stays unfolding is_run_def by metis
  qed (use that in blast)
  with j k show "\<exists>j\<ge>i. (a (\<sigma> j) (\<sigma> (Suc j)) \<or> b (\<sigma> j) (\<sigma> (Suc j))) \<or> (\<nexists>s'. a (\<sigma> j) s' \<or> b (\<sigma> j) s')"
    by (meson order_trans)
qed

lemma run_reachable:
  assumes "is_run step \<sigma>" and "init (\<sigma> 0)"
  shows "reachable init step (\<sigma> n)"
proof (induction n)
  case 0
  from assms(2) show ?case by (rule reachable_init)
next
  case (Suc n)
  with assms(1) show ?case unfolding is_run_def by (metis reachable_step)
qed

lemma run_restrict:
  assumes "is_run (lstep exec) \<sigma>" and "\<And>n l. k \<le> n \<Longrightarrow> \<not> P l \<Longrightarrow> exec l (\<sigma> n) \<noteq> Some (\<sigma> (Suc n))"
  shows "is_run (lstep (restrict P exec)) (\<lambda>n. \<sigma> (k + n))"
  unfolding is_run_def
proof
  fix n
  consider "\<sigma> (Suc (k + n)) = \<sigma> (k + n)" | l where "exec l (\<sigma> (k + n)) = Some (\<sigma> (Suc (k + n)))"
    using assms(1) unfolding is_run_def lstep_def by blast
  then show "\<sigma> (k + Suc n) = \<sigma> (k + n) \<or> lstep (restrict P exec) (\<sigma> (k + n)) (\<sigma> (k + Suc n))"
  proof cases
    case (2 l)
    with assms(2) [of "k + n" l] show ?thesis by (auto simp: lstep_def)
  qed simp
qed

text \<open>The run that replays a list of labels and then stutters; it is fair to whatever is impossible at its end.\<close>

definition replay :: "('l \<Rightarrow> 's \<Rightarrow> 's option) \<Rightarrow> 'l list \<Rightarrow> 's \<Rightarrow> nat \<Rightarrow> 's" where
  "replay exec ls s n = the (exec_labels exec (take n ls) s)"

lemma replay_end: "exec_labels exec ls s = Some s' \<Longrightarrow> length ls \<le> n \<Longrightarrow> replay exec ls s n = s'"
  by (simp add: replay_def)

lemma replay_run:
  assumes "exec_labels exec ls s = Some s'"
  shows "is_run (lstep exec) (replay exec ls s)"
  unfolding is_run_def
proof
  fix n
  show "replay exec ls s (Suc n) = replay exec ls s n \<or> lstep exec (replay exec ls s n) (replay exec ls s (Suc n))"
  proof (cases "n < length ls")
    case True
    then have "take (Suc n) ls = take n ls @ [ls ! n]" "ls = take n ls @ ls ! n # drop (Suc n) ls"
      by (simp_all add: take_Suc_conv_app_nth id_take_nth_drop)
    moreover from this(2) assms obtain s1 s2 where "exec_labels exec (take n ls) s = Some s1" "exec (ls ! n) s1 = Some s2"
      using exec_labels_append [of exec "take n ls" "ls ! n # drop (Suc n) ls" s] by (auto split: option.splits)
    ultimately show ?thesis by (auto simp: replay_def exec_labels_append lstep_def)
  qed (simp add: replay_def)
qed

lemma replay_fair:
  assumes "exec_labels exec ls s = Some s'" and "\<nexists>t. act s' t"
  shows "weakly_fair act (replay exec ls s)"
  unfolding weakly_fair_def
proof
  fix i
  show "\<exists>j\<ge>i. act (replay exec ls s j) (replay exec ls s (Suc j)) \<or> (\<nexists>t. act (replay exec ls s j) t)"
    using assms replay_end [of exec ls s s' "max i (length ls)"] by (intro exI [of _ "max i (length ls)"]) simp
qed

lemma run_invariant:
  assumes "is_run step \<sigma>" and "I (\<sigma> 0)" and "\<And>s s'. I s \<Longrightarrow> step s s' \<Longrightarrow> I s'"
  shows "I (\<sigma> n)"
proof (induction n)
  case (Suc n)
  with assms show ?case unfolding is_run_def by metis
qed (fact assms(2))

text \<open>
  An action that is possible until the goal is reached and lowers a rank that no step raises: every
  fair run reaches the goal.
\<close>

locale ranked_progress =
  fixes step act :: "'s \<Rightarrow> 's \<Rightarrow> bool" and inv goal :: "'s \<Rightarrow> bool" and rank :: "'s \<Rightarrow> 'r :: wellorder"
  assumes inv_step: "inv s \<Longrightarrow> step s s' \<Longrightarrow> inv s'"
    and rank_step: "inv s \<Longrightarrow> step s s' \<Longrightarrow> rank s' \<le> rank s"
    and progress: "inv s \<Longrightarrow> \<not> goal s \<Longrightarrow> \<exists>s'. act s s'"
    and decrease: "inv s \<Longrightarrow> \<not> goal s \<Longrightarrow> act s s' \<Longrightarrow> rank s' < rank s"
begin

lemma run_rank_mono:
  assumes "is_run step \<sigma>" and "inv (\<sigma> 0)" and "i \<le> j"
  shows "rank (\<sigma> j) \<le> rank (\<sigma> i)"
  using assms(3)
proof (induction j rule: dec_induct)
  case (step j)
  have "inv (\<sigma> j)" by (rule run_invariant [of step \<sigma> inv, OF assms(1,2) inv_step])
  then have "rank (\<sigma> (Suc j)) \<le> rank (\<sigma> j)"
    using assms(1) rank_step unfolding is_run_def by (metis order.refl)
  with step.IH show ?case by simp
qed simp

lemma eventually_goal:
  assumes "is_run step \<sigma>" and "weakly_fair act \<sigma>" and "inv (\<sigma> 0)"
  shows "\<exists>n. goal (\<sigma> n)"
proof -
  have "\<exists>n. goal (\<sigma> n)" if "rank (\<sigma> i) = k" for i k
    using that
  proof (induction k arbitrary: i rule: less_induct)
    case (less k)
    from assms(2) obtain j where j: "i \<le> j" "act (\<sigma> j) (\<sigma> (Suc j)) \<or> (\<nexists>s'. act (\<sigma> j) s')"
      unfolding weakly_fair_def by blast
    have inv: "inv (\<sigma> j)" by (rule run_invariant [of step \<sigma> inv, OF assms(1,3) inv_step])
    show ?case
    proof (cases "act (\<sigma> j) (\<sigma> (Suc j)) \<and> \<not> goal (\<sigma> j)")
      case True
      then have "rank (\<sigma> (Suc j)) < k"
        using decrease [OF inv] run_rank_mono [OF assms(1,3) j(1)] less.prems by fastforce
      then show ?thesis by (rule less.IH) simp
    next
      case False
      with j(2) progress [OF inv] show ?thesis by blast
    qed
  qed
  then show ?thesis by blast
qed

end

end
