(* ===== verification/Manager_Interleaving.thy ===== *)
theory Manager_Interleaving
  imports Session_Manager Transition_Runs "HOL-Library.Multiset"
begin

text \<open>
  The session manager of \<open>internal/api/grpc/events/session_manager.go\<close> with its calls interleaved.
  Theory \<open>Session_Manager\<close> makes each call one step; here a call of \<open>Register\<close>, \<open>Unregister\<close> or \<open>Close\<close>
  is the sequence of its accesses to the shared map, the counter and the sessions, and any number of
  calls run at the same time.

  A traversal with \<open>Range\<close> sees what the package documents: no key is visited twice, a key that is
  neither stored nor deleted meanwhile is visited with its value, and for any other key the
  traversal may see the value of any moment, or none.  Clearing the map is one step.
\<close>

subsection \<open>Calls in progress\<close>

text \<open>
  What remains to be done of a call.  A traversal knows the keys it has visited, the keys that were
  stored or deleted since it began, the entries there have been since then, and the keys at its
  beginning.
\<close>

datatype manager_call =
  RegClosing session_ref
  | RegAdding
  | UnregSubtracting
  | Ranging "string set" "string set" "(string \<times> session_ref) set" "string set"
  | Clearing
  | Storing

fun touch :: "string \<Rightarrow> session_ref option \<Rightarrow> manager_call \<Rightarrow> manager_call" where
  "touch k v (Ranging visited touched seen start) =
     Ranging visited (insert k touched) (seen \<union> (\<lambda>r. (k, r)) ` set_option v) start"
| "touch k v c = c"

fun touch_all :: "string set \<Rightarrow> manager_call \<Rightarrow> manager_call" where
  "touch_all ks (Ranging visited touched seen start) = Ranging visited (touched \<union> ks) seen start"
| "touch_all ks c = c"

text \<open>
  The last two fields are history: the sessions that were replaced by a registration, and whether
  \<open>Close\<close> was ever called.
\<close>

record ('m, 'msg) manager_net =
  mi_sm :: "'m SessionManager"
  mi_heap :: "'msg session_heap"
  mi_calls :: "manager_call multiset"
  mi_replaced :: "session_ref set"
  mi_shutdown :: bool

definition manager_started :: "(string, session_ref, 'm) xmap \<Rightarrow> 'msg session_heap \<Rightarrow> ('m, 'msg) manager_net" where
  "manager_started X h =
     \<lparr>mi_sm = NewSessionManager X, mi_heap = h, mi_calls = {#}, mi_replaced = {}, mi_shutdown = False\<rparr>"

datatype manager_label =
  MRegister string session_ref | MRegClose session_ref | MRegAdd
  | MUnregister string | MUnregSub
  | MClose | MVisit "string set" "string set" "(string \<times> session_ref) set" "string set" string session_ref
  | MRangeEnd "string set" "string set" "(string \<times> session_ref) set" "string set" | MClear | MStore

definition close_ref :: "session_ref \<Rightarrow> 'msg session_heap \<Rightarrow> 'msg session_heap option" where
  "close_ref r h = (case Close (h r) of Ok s \<Rightarrow> Some (h(r := s)) | Err e \<Rightarrow> None | Panic p \<Rightarrow> None)"

text \<open>A finished part of a call is taken out of the calls in progress, and what follows put in.\<close>

definition proceed :: "manager_call \<Rightarrow> manager_call multiset \<Rightarrow> ('m, 'msg) manager_net \<Rightarrow> ('m, 'msg) manager_net" where
  "proceed c next s = s\<lparr>mi_calls := mi_calls s - {#c#} + next\<rparr>"

definition keys_of :: "(string, session_ref, 'm) xmap \<Rightarrow> ('m, 'msg) manager_net \<Rightarrow> string set" where
  "keys_of X s = fst ` set (xm_Range X (sm_sessions (mi_sm s)))"

fun manager_exec ::
  "(string, session_ref, 'm) xmap \<Rightarrow> manager_label \<Rightarrow> ('m, 'msg) manager_net \<Rightarrow> ('m, 'msg) manager_net option" where
  "manager_exec X (MRegister w r) s =
     (case xm_LoadAndStore X w r (sm_sessions (mi_sm s)) of
        (old, m) \<Rightarrow>
          Some (s\<lparr>mi_sm := (mi_sm s)\<lparr>sm_sessions := m\<rparr>,
                  mi_calls := add_mset (case old of Some r' \<Rightarrow> RegClosing r' | None \<Rightarrow> RegAdding) (image_mset (touch w (Some r)) (mi_calls s)),
                  mi_replaced := mi_replaced s \<union> set_option old\<rparr>))"
| "manager_exec X (MRegClose r) s =
     (if RegClosing r \<in># mi_calls s
      then map_option (\<lambda>h. proceed (RegClosing r) {#} (s\<lparr>mi_heap := h\<rparr>)) (close_ref r (mi_heap s)) else None)"
| "manager_exec X MRegAdd s =
     (if RegAdding \<in># mi_calls s
      then Some (proceed RegAdding {#} (s\<lparr>mi_sm := (mi_sm s)\<lparr>sm_sessionCnt := sm_sessionCnt (mi_sm s) + 1\<rparr>\<rparr>)) else None)"
| "manager_exec X (MUnregister w) s =
     (case xm_LoadAndDelete X w (sm_sessions (mi_sm s)) of
        (old, m) \<Rightarrow>
          Some (s\<lparr>mi_sm := (mi_sm s)\<lparr>sm_sessions := m\<rparr>,
                  mi_calls := image_mset (touch w None) (mi_calls s) + (if old = None then {#} else {#UnregSubtracting#})\<rparr>))"
| "manager_exec X MUnregSub s =
     (if UnregSubtracting \<in># mi_calls s
      then Some (proceed UnregSubtracting {#} (s\<lparr>mi_sm := (mi_sm s)\<lparr>sm_sessionCnt := sm_sessionCnt (mi_sm s) - 1\<rparr>\<rparr>)) else None)"
| "manager_exec X MClose s =
     Some (s\<lparr>mi_calls := add_mset (Ranging {} {} (set (xm_Range X (sm_sessions (mi_sm s)))) (keys_of X s)) (mi_calls s),
             mi_shutdown := True\<rparr>)"
| "manager_exec X (MVisit visited touched seen start k r) s =
     (if Ranging visited touched seen start \<in># mi_calls s \<and> k \<notin> visited \<and> (k, r) \<in> seen
      then map_option (\<lambda>h. proceed (Ranging visited touched seen start) {#Ranging (insert k visited) touched seen start#} (s\<lparr>mi_heap := h\<rparr>))
             (close_ref r (mi_heap s))
      else None)"
| "manager_exec X (MRangeEnd visited touched seen start) s =
     (if Ranging visited touched seen start \<in># mi_calls s \<and> start - touched \<subseteq> visited
      then Some (proceed (Ranging visited touched seen start) {#Clearing#} s) else None)"
| "manager_exec X MClear s =
     (if Clearing \<in># mi_calls s
      then Some (s\<lparr>mi_sm := (mi_sm s)\<lparr>sm_sessions := xm_Clear X (sm_sessions (mi_sm s))\<rparr>,
                   mi_calls := image_mset (touch_all (keys_of X s)) (mi_calls s - {#Clearing#}) + {#Storing#}\<rparr>) else None)"
| "manager_exec X MStore s =
     (if Storing \<in># mi_calls s
      then Some (proceed Storing {#} (s\<lparr>mi_sm := (mi_sm s)\<lparr>sm_sessionCnt := 0\<rparr>\<rparr>)) else None)"

abbreviation manager_reachable ::
  "(string, session_ref, 'm) xmap \<Rightarrow> 'msg session_heap \<Rightarrow> ('m, 'msg) manager_net \<Rightarrow> bool" where
  "manager_reachable X h \<equiv> reachable (\<lambda>s. s = manager_started X h) (lstep (manager_exec X))"

text \<open>A call that runs alone is the call of theory \<open>Session_Manager\<close>.\<close>

lemma Register_alone:
  assumes "Register X w r (mi_sm s, mi_heap s) = Ok (sm, h)"
  shows "\<exists>ls s'. exec_labels (manager_exec X) (MRegister w r # ls) (s\<lparr>mi_calls := {#}\<rparr>) = Some s'
    \<and> mi_sm s' = sm \<and> mi_heap s' = h \<and> mi_calls s' = {#}"
proof -
  obtain old m where stored: "xm_LoadAndStore X w r (sm_sessions (mi_sm s)) = (old, m)" by fastforce
  show ?thesis
  proof (cases old)
    case None
    with assms stored show ?thesis by (intro exI [of _ "[MRegAdd]"]) (auto simp: Register_def proceed_def)
  next
    case (Some r')
    with assms stored show ?thesis
      by (intro exI [of _ "[MRegClose r']"]) (auto simp: Register_def proceed_def close_ref_def split: outcome.splits)
  qed
qed

subsection \<open>Lemmas\<close>

lemma touch_eq_iff [simp]:
  "RegClosing r = touch k v c \<longleftrightarrow> c = RegClosing r" "touch k v c = RegAdding \<longleftrightarrow> c = RegAdding"
  "touch k v c = UnregSubtracting \<longleftrightarrow> c = UnregSubtracting"
  "RegClosing r = touch_all ks c \<longleftrightarrow> c = RegClosing r"
  by (cases c; auto)+

lemma count_touch [simp]:
  "count (image_mset (touch k v) M) RegAdding = count M RegAdding"
  "count (image_mset (touch k v) M) UnregSubtracting = count M UnregSubtracting"
  by (induction M) auto

lemma Ranging_touch:
  "Ranging V T S K \<in># image_mset (touch k v) M \<longleftrightarrow>
     (\<exists>T0 S0. Ranging V T0 S0 K \<in># M \<and> T = insert k T0 \<and> S = S0 \<union> (\<lambda>r. (k, r)) ` set_option v)"
proof -
  have "Ranging V T S K = touch k v c \<longleftrightarrow>
      (\<exists>T0 S0. c = Ranging V T0 S0 K \<and> T = insert k T0 \<and> S = S0 \<union> (\<lambda>r. (k, r)) ` set_option v)" for c
    by (cases c) auto
  then show ?thesis by (auto simp: image_iff)
qed

lemma Ranging_touch_all:
  "Ranging V T S K \<in># image_mset (touch_all ks) M \<longleftrightarrow> (\<exists>T0. Ranging V T0 S K \<in># M \<and> T = T0 \<union> ks)"
proof -
  have "Ranging V T S K = touch_all ks c \<longleftrightarrow> (\<exists>T0. c = Ranging V T0 S K \<and> T = T0 \<union> ks)" for c
    by (cases c) auto
  then show ?thesis by (auto simp: image_iff)
qed

lemma proceed_simps [simp]:
  "mi_sm (proceed c d s) = mi_sm s" "mi_heap (proceed c d s) = mi_heap s" "mi_replaced (proceed c d s) = mi_replaced s"
  "mi_shutdown (proceed c d s) = mi_shutdown s" "mi_calls (proceed c d s) = mi_calls s - {#c#} + d"
  by (simp_all add: proceed_def)

text \<open>Closing a session keeps the others, and sessions that are closed stay closed.\<close>

lemma close_ref_Some:
  assumes "close_ref r h = Some h'" and "\<forall>q. sound_session (h q)"
  shows "(\<forall>q. sound_session (h' q)) \<and> ss_closed (h' r) \<and> (\<forall>q. ss_closed (h q) \<longrightarrow> ss_closed (h' q))"
proof -
  obtain s where "Close (h r) = Ok s" "sound_session s" "ss_closed s" using Close_sound assms(2) by metis
  with assms show ?thesis by (auto simp: close_ref_def)
qed

definition sessions_inv :: "('m, 'msg) manager_net \<Rightarrow> bool" where
  "sessions_inv s \<longleftrightarrow> (\<forall>r. sound_session (mi_heap s r))
     \<and> (\<forall>r \<in> mi_replaced s. ss_closed (mi_heap s r) \<or> RegClosing r \<in># mi_calls s)"

lemma in_diff_other: "x \<noteq> c \<Longrightarrow> x \<in># M - {#c#} \<longleftrightarrow> x \<in># M"
  by (simp add: in_diff_count)

lemma sessions_inv_step:
  assumes "manager_exec X l s = Some s'" and "sessions_inv s"
  shows "sessions_inv s'"
proof (cases l)
  case (MRegClose r)
  with assms(1) obtain h where h: "close_ref r (mi_heap s) = Some h" "s' = proceed (RegClosing r) {#} (s\<lparr>mi_heap := h\<rparr>)"
    by (auto split: if_splits)
  with assms(2) close_ref_Some [OF h(1)] show ?thesis
    by (auto simp: sessions_inv_def) (metis in_diff_other manager_call.inject(1))
next
  case (MVisit V T S K k r)
  with assms(1) obtain h where h: "close_ref r (mi_heap s) = Some h"
      "s' = proceed (Ranging V T S K) {#Ranging (insert k V) T S K#} (s\<lparr>mi_heap := h\<rparr>)"
    by (auto split: if_splits)
  with assms(2) close_ref_Some [OF h(1)] show ?thesis by (auto simp: sessions_inv_def in_diff_other)
next
  case (MRegister w r)
  with assms show ?thesis by (auto simp: sessions_inv_def split: prod.splits option.splits)
next
  case (MUnregister w)
  with assms show ?thesis by (auto simp: sessions_inv_def split: prod.splits if_splits)
next
  case MClear
  with assms show ?thesis by (auto simp: sessions_inv_def in_diff_other split: if_splits)
qed (use assms in \<open>auto simp: sessions_inv_def in_diff_other split: if_splits\<close>)

text \<open>
  The counter, corrected by the calls that still have to change it, is the number of entries; and a
  traversal agrees with the map on the keys that were not changed since it began.
\<close>

fun plain_call :: "manager_call \<Rightarrow> bool" where
  "plain_call (RegClosing r) = True"
| "plain_call RegAdding = True"
| "plain_call UnregSubtracting = True"
| "plain_call c = False"

lemma plain_touch [simp]: "plain_call (touch k v c) = plain_call c"
  by (cases c) auto

definition counter_inv :: "(string, session_ref, 'm) xmap \<Rightarrow> ('m, 'msg) manager_net \<Rightarrow> bool" where
  "counter_inv X s \<longleftrightarrow> (\<not> mi_shutdown s \<longrightarrow>
     sm_sessionCnt (mi_sm s) + int (count (mi_calls s) RegAdding) =
       int (card (dom (xm_Load X (sm_sessions (mi_sm s))))) + int (count (mi_calls s) UnregSubtracting)
     \<and> (\<forall>c \<in># mi_calls s. plain_call c))"

definition range_inv :: "(string, session_ref, 'm) xmap \<Rightarrow> ('m, 'msg) manager_net \<Rightarrow> bool" where
  "range_inv X s \<longleftrightarrow> (\<forall>V T S K. Ranging V T S K \<in># mi_calls s \<longrightarrow>
     (\<forall>k. k \<notin> T \<longrightarrow> (\<forall>r. (k, r) \<in> S \<longleftrightarrow> xm_Load X (sm_sessions (mi_sm s)) k = Some r)
       \<and> (k \<in> K \<longleftrightarrow> k \<in> dom (xm_Load X (sm_sessions (mi_sm s))))
       \<and> (k \<in> V \<longrightarrow> (\<forall>r. xm_Load X (sm_sessions (mi_sm s)) k = Some r \<longrightarrow> ss_closed (mi_heap s r)))))"

context session_map
begin

lemma counter_inv_register:
  assumes "counter_inv X s" and "manager_exec X (MRegister w r) s = Some s'"
  shows "counter_inv X s'"
proof -
  obtain m where m: "xm_LoadAndStore X w r (sm_sessions (mi_sm s)) = (xm_Load X (sm_sessions (mi_sm s)) w, m)"
      "xm_Load X m = (xm_Load X (sm_sessions (mi_sm s)))(w \<mapsto> r)"
    using LoadAndStore_cases by blast
  show ?thesis
  proof (cases "xm_Load X (sm_sessions (mi_sm s)) w")
    case None
    then have "w \<notin> dom (xm_Load X (sm_sessions (mi_sm s)))" by auto
    then have "card (insert w (dom (xm_Load X (sm_sessions (mi_sm s))))) = Suc (card (dom (xm_Load X (sm_sessions (mi_sm s)))))"
      by simp
    with None m assms show ?thesis by (auto simp: counter_inv_def)
  next
    case (Some old)
    then have "insert w (dom (xm_Load X (sm_sessions (mi_sm s)))) = dom (xm_Load X (sm_sessions (mi_sm s)))" by auto
    with Some m assms show ?thesis by (auto simp: counter_inv_def)
  qed
qed

lemma counter_inv_unregister:
  assumes "counter_inv X s" and "manager_exec X (MUnregister w) s = Some s'"
  shows "counter_inv X s'"
proof -
  let ?d = "dom (xm_Load X (sm_sessions (mi_sm s)))"
  obtain m where m: "xm_LoadAndDelete X w (sm_sessions (mi_sm s)) = (xm_Load X (sm_sessions (mi_sm s)) w, m)"
      "xm_Load X m = (xm_Load X (sm_sessions (mi_sm s)))(w := None)"
    using LoadAndDelete_cases by blast
  show ?thesis
  proof (cases "xm_Load X (sm_sessions (mi_sm s)) w")
    case None
    then have "?d - {w} = ?d" by auto
    with None m assms show ?thesis by (auto simp: counter_inv_def)
  next
    case (Some old)
    then have "w \<in> ?d" by auto
    then have "int (card (?d - {w})) = int (card ?d) - 1" using card_Suc_Diff1 [OF finite_dom] by fastforce
    with Some m assms show ?thesis by (auto simp: counter_inv_def)
  qed
qed

lemma counter_inv_step:
  assumes "manager_exec X l s = Some s'" and "counter_inv X s"
  shows "counter_inv X s'"
proof -
  have plain: "\<not> mi_shutdown s \<Longrightarrow> \<forall>c \<in># mi_calls s - N. plain_call c" for N
    using assms(2) in_diffD unfolding counter_inv_def by fast
  show ?thesis
  proof (cases l)
    case (MRegister w r)
    with assms show ?thesis using counter_inv_register by blast
  next
    case (MUnregister w)
    with assms show ?thesis using counter_inv_unregister by blast
  next
    case MRegAdd
    then have "RegAdding \<in># mi_calls s" using assms(1) by (simp split: if_splits)
    then have "int (count (mi_calls s - {#RegAdding#}) RegAdding) = int (count (mi_calls s) RegAdding) - 1"
      by (simp add: of_nat_diff Suc_le_eq)
    with MRegAdd assms plain show ?thesis by (auto simp: counter_inv_def split: if_splits)
  next
    case MUnregSub
    then have "UnregSubtracting \<in># mi_calls s" using assms(1) by (simp split: if_splits)
    then have "int (count (mi_calls s - {#UnregSubtracting#}) UnregSubtracting) = int (count (mi_calls s) UnregSubtracting) - 1"
      by (simp add: of_nat_diff Suc_le_eq)
    with MUnregSub assms plain show ?thesis by (auto simp: counter_inv_def split: if_splits)
  next
    case (MRegClose r)
    with assms plain show ?thesis by (auto simp: counter_inv_def split: if_splits)
  qed (use assms plain in \<open>auto simp: counter_inv_def split: if_splits\<close>)
qed

lemma range_inv_register:
  assumes "range_inv X s" and "manager_exec X (MRegister w r) s = Some s'"
  shows "range_inv X s'"
proof -
  obtain m where m: "xm_LoadAndStore X w r (sm_sessions (mi_sm s)) = (xm_Load X (sm_sessions (mi_sm s)) w, m)"
      "xm_Load X m = (xm_Load X (sm_sessions (mi_sm s)))(w \<mapsto> r)"
    using LoadAndStore_cases by blast
  have s': "mi_heap s' = mi_heap s" "xm_Load X (sm_sessions (mi_sm s')) = (xm_Load X (sm_sessions (mi_sm s)))(w \<mapsto> r)"
    and calls: "Ranging V T S K \<in># mi_calls s' \<longleftrightarrow> Ranging V T S K \<in># image_mset (touch w (Some r)) (mi_calls s)" for V T S K
    using assms(2) m by (auto split: option.splits)
  show ?thesis unfolding range_inv_def
  proof (intro allI impI)
    fix V T S K k assume "Ranging V T S K \<in># mi_calls s'" and k: "k \<notin> T"
    then obtain T0 S0 where "Ranging V T0 S0 K \<in># mi_calls s" "T = insert w T0" "S = S0 \<union> {(w, r)}"
      unfolding calls Ranging_touch by auto
    with assms(1) k show "(\<forall>r. (k, r) \<in> S \<longleftrightarrow> xm_Load X (sm_sessions (mi_sm s')) k = Some r)
       \<and> (k \<in> K \<longleftrightarrow> k \<in> dom (xm_Load X (sm_sessions (mi_sm s'))))
       \<and> (k \<in> V \<longrightarrow> (\<forall>r. xm_Load X (sm_sessions (mi_sm s')) k = Some r \<longrightarrow> ss_closed (mi_heap s' r)))"
      unfolding range_inv_def s' by auto
  qed
qed

lemma range_inv_unregister:
  assumes "range_inv X s" and "manager_exec X (MUnregister w) s = Some s'"
  shows "range_inv X s'"
proof -
  obtain m where m: "xm_LoadAndDelete X w (sm_sessions (mi_sm s)) = (xm_Load X (sm_sessions (mi_sm s)) w, m)"
      "xm_Load X m = (xm_Load X (sm_sessions (mi_sm s)))(w := None)"
    using LoadAndDelete_cases by blast
  have s': "mi_heap s' = mi_heap s" "xm_Load X (sm_sessions (mi_sm s')) = (xm_Load X (sm_sessions (mi_sm s)))(w := None)"
    and calls: "Ranging V T S K \<in># mi_calls s' \<longleftrightarrow> Ranging V T S K \<in># image_mset (touch w None) (mi_calls s)" for V T S K
    using assms(2) m by (auto split: if_splits)
  show ?thesis unfolding range_inv_def
  proof (intro allI impI)
    fix V T S K k assume "Ranging V T S K \<in># mi_calls s'" and k: "k \<notin> T"
    then obtain T0 where "Ranging V T0 S K \<in># mi_calls s" "T = insert w T0"
      unfolding calls Ranging_touch by auto
    with assms(1) k show "(\<forall>r. (k, r) \<in> S \<longleftrightarrow> xm_Load X (sm_sessions (mi_sm s')) k = Some r)
       \<and> (k \<in> K \<longleftrightarrow> k \<in> dom (xm_Load X (sm_sessions (mi_sm s'))))
       \<and> (k \<in> V \<longrightarrow> (\<forall>r. xm_Load X (sm_sessions (mi_sm s')) k = Some r \<longrightarrow> ss_closed (mi_heap s' r)))"
      unfolding range_inv_def s' by auto
  qed
qed

lemma range_inv_clear:
  assumes "range_inv X s" and "manager_exec X MClear s = Some s'"
  shows "range_inv X s'"
proof -
  have s': "mi_heap s' = mi_heap s" "xm_Load X (sm_sessions (mi_sm s')) = Map.empty"
    and calls: "mi_calls s' = image_mset (touch_all (keys_of X s)) (mi_calls s - {#Clearing#}) + {#Storing#}"
    using assms(2) by (auto split: if_splits)
  have keys: "keys_of X s = dom (xm_Load X (sm_sessions (mi_sm s)))" using Range_keys by (simp add: keys_of_def)
  show ?thesis unfolding range_inv_def
  proof (intro allI impI)
    fix V T S K k assume "Ranging V T S K \<in># mi_calls s'" and k: "k \<notin> T"
    then have "Ranging V T S K \<in># image_mset (touch_all (keys_of X s)) (mi_calls s - {#Clearing#})" unfolding calls by simp
    then obtain T0 where T0: "Ranging V T0 S K \<in># mi_calls s" "T = T0 \<union> keys_of X s"
      unfolding Ranging_touch_all by (auto dest: in_diffD)
    then have "k \<notin> T0" "k \<notin> dom (xm_Load X (sm_sessions (mi_sm s)))" using k keys by auto
    with assms(1) T0(1) show "(\<forall>r. (k, r) \<in> S \<longleftrightarrow> xm_Load X (sm_sessions (mi_sm s')) k = Some r)
       \<and> (k \<in> K \<longleftrightarrow> k \<in> dom (xm_Load X (sm_sessions (mi_sm s'))))
       \<and> (k \<in> V \<longrightarrow> (\<forall>r. xm_Load X (sm_sessions (mi_sm s')) k = Some r \<longrightarrow> ss_closed (mi_heap s' r)))"
      unfolding range_inv_def s' by auto
  qed
qed

text \<open>Steps that leave the map alone, close sessions and may end or continue traversals.\<close>

lemma range_inv_calls:
  assumes "range_inv X s" and "sm_sessions (mi_sm s') = sm_sessions (mi_sm s)"
    and "\<And>r. ss_closed (mi_heap s r) \<Longrightarrow> ss_closed (mi_heap s' r)"
    and "\<And>V T S K. Ranging V T S K \<in># mi_calls s' \<Longrightarrow> \<exists>V0. Ranging V0 T S K \<in># mi_calls s
          \<and> (\<forall>k \<in> V - V0. k \<notin> T \<longrightarrow> (\<forall>r. xm_Load X (sm_sessions (mi_sm s)) k = Some r \<longrightarrow> ss_closed (mi_heap s' r)))"
  shows "range_inv X s'"
  unfolding range_inv_def assms(2)
proof (intro allI impI)
  fix V T S K k assume r: "Ranging V T S K \<in># mi_calls s'" and k: "k \<notin> T"
  from assms(4) [OF r] obtain V0 where V0: "Ranging V0 T S K \<in># mi_calls s"
      "\<forall>k \<in> V - V0. k \<notin> T \<longrightarrow> (\<forall>r. xm_Load X (sm_sessions (mi_sm s)) k = Some r \<longrightarrow> ss_closed (mi_heap s' r))" by blast
  with assms(1,3) k show "(\<forall>r. (k, r) \<in> S \<longleftrightarrow> xm_Load X (sm_sessions (mi_sm s)) k = Some r)
       \<and> (k \<in> K \<longleftrightarrow> k \<in> dom (xm_Load X (sm_sessions (mi_sm s))))
       \<and> (k \<in> V \<longrightarrow> (\<forall>r. xm_Load X (sm_sessions (mi_sm s)) k = Some r \<longrightarrow> ss_closed (mi_heap s' r)))"
    unfolding range_inv_def by blast
qed

lemma range_inv_fewer:
  assumes "range_inv X s" and "sm_sessions (mi_sm s') = sm_sessions (mi_sm s)" and "mi_heap s' = mi_heap s"
    and "\<And>V T S K. Ranging V T S K \<in># mi_calls s' \<Longrightarrow> Ranging V T S K \<in># mi_calls s"
  shows "range_inv X s'"
  using assms by (intro range_inv_calls [OF assms(1)]) (simp, simp, blast)

lemma range_inv_visit:
  assumes "range_inv X s" and "sessions_inv s" and "manager_exec X (MVisit V T S K k r) s = Some s'"
  shows "range_inv X s'"
proof -
  from assms(3) obtain h where h: "close_ref r (mi_heap s) = Some h"
      "s' = proceed (Ranging V T S K) {#Ranging (insert k V) T S K#} (s\<lparr>mi_heap := h\<rparr>)"
      and c: "Ranging V T S K \<in># mi_calls s" "(k, r) \<in> S"
    by (auto split: if_splits)
  have closed: "ss_closed (h r)" "\<And>q. ss_closed (mi_heap s q) \<Longrightarrow> ss_closed (h q)"
    using close_ref_Some [OF h(1)] assms(2) by (auto simp: sessions_inv_def)
  have "\<forall>q. k \<notin> T \<longrightarrow> xm_Load X (sm_sessions (mi_sm s)) k = Some q \<longrightarrow> q = r"
    using assms(1) c unfolding range_inv_def by (metis option.inject)
  then show ?thesis
    using h(2) c(1) closed
    by (intro range_inv_calls [OF assms(1)]) (auto dest: in_diffD)
qed

lemma range_inv_step:
  assumes "manager_exec X l s = Some s'" and "range_inv X s" and "sessions_inv s"
  shows "range_inv X s'"
proof (cases l)
  case (MRegister w r)
  with assms show ?thesis using range_inv_register by blast
next
  case (MUnregister w)
  with assms show ?thesis using range_inv_unregister by blast
next
  case (MVisit V T S K k r)
  with assms show ?thesis using range_inv_visit by blast
next
  case MClear
  with assms show ?thesis using range_inv_clear by blast
next
  case (MRegClose r)
  with assms(1) obtain h where h: "close_ref r (mi_heap s) = Some h" "s' = proceed (RegClosing r) {#} (s\<lparr>mi_heap := h\<rparr>)"
    by (auto split: if_splits)
  with close_ref_Some [OF h(1)] assms(3) show ?thesis
    by (intro range_inv_calls [OF assms(2)]) (auto simp: sessions_inv_def dest: in_diffD)
next
  case MClose
  with assms(1,2) show ?thesis using Range_keys [of "sm_sessions (mi_sm s)"] by (auto simp: range_inv_def keys_of_def Range_set)
qed (use assms(1) in \<open>auto intro!: range_inv_fewer [OF assms(2)] dest: in_diffD split: if_splits\<close>)

lemma manager_reachable_inv:
  assumes "\<forall>r. sound_session (h r)" and "manager_reachable X h s"
  shows "sessions_inv s \<and> counter_inv X s \<and> range_inv X s"
  using assms(2)
proof induction
  case (reachable_init s)
  with assms(1) show ?case
    by (simp add: manager_started_def sessions_inv_def counter_inv_def range_inv_def NewSessionManager_def)
next
  case (reachable_step s s')
  then show ?case using sessions_inv_step counter_inv_step range_inv_step unfolding lstep_def by blast
qed

end

subsection \<open>Properties of the interleaved manager\<close>

text \<open>
  C12: whatever calls are interleaved, a session that was replaced by a newer one of the same worker
  is closed, or the call that replaced it is about to close it.  As long as the manager is not
  closed, the counter and the map differ by exactly the calls that have changed the map and not yet
  the counter.  With no such call the counter is the number of connected workers.
\<close>

theorem manager_interleaving_count:
  fixes X :: "(string, session_ref, 'm) xmap" and s :: "('m, 'msg) manager_net"
  assumes "session_map X" and "\<forall>r. sound_session (h r)" and "manager_reachable X h s"
  shows "(\<forall>r \<in> mi_replaced s. ss_closed (mi_heap s r) \<or> RegClosing r \<in># mi_calls s)
    \<and> (mi_shutdown s \<or>
       ActiveWorkerCount (mi_sm s) + int (count (mi_calls s) RegAdding) =
         int (card {w. Get X w (mi_sm s) \<noteq> None}) + int (count (mi_calls s) UnregSubtracting))"
  using session_map.manager_reachable_inv [OF assms]
  by (auto simp: sessions_inv_def counter_inv_def Get_def ActiveWorkerCount_def dom_def)

text \<open>Two registrations of a worker and the removal of another, each between the accesses of the others.\<close>

definition open_sessions :: "string session_heap" where
  "open_sessions = (\<lambda>r. NewSession None ''node1'')"

lemma open_sessions_sound: "\<forall>r. sound_session (open_sessions r)"
  by (simp add: open_sessions_def sound_session_def NewSession_def)

definition busy_labels :: "manager_label list" where
  "busy_labels = [MRegister ''w1'' 1, MRegister ''w2'' 2, MRegister ''w1'' 3, MRegAdd, MUnregister ''w2'']"

lemma busy_reaches:
  "\<exists>s. exec_labels (manager_exec fmap_xmap) busy_labels (manager_started fmap_xmap open_sessions) = Some s
     \<and> mi_calls s = {#RegClosing 1, RegAdding, UnregSubtracting#} \<and> mi_replaced s = {1} \<and> \<not> mi_shutdown s
     \<and> ActiveWorkerCount (mi_sm s) = 1"
  by (simp add: busy_labels_def manager_started_def NewSessionManager_def fmap_xmap_def ActiveWorkerCount_def proceed_def)

theorem manager_interleaving_count_witness:
  "\<exists>s. manager_reachable fmap_xmap open_sessions s \<and> ActiveWorkerCount (mi_sm s) = 1
     \<and> card {w. Get fmap_xmap w (mi_sm s) \<noteq> None} = 1"
proof -
  from busy_reaches obtain s where s: "manager_reachable fmap_xmap open_sessions s"
      "mi_calls s = {#RegClosing 1, RegAdding, UnregSubtracting#}" "\<not> mi_shutdown s" "ActiveWorkerCount (mi_sm s) = 1"
    using exec_labels_from_init by metis
  from manager_interleaving_count [OF fmap_sessions.session_map_axioms open_sessions_sound s(1)] s show ?thesis by auto
qed

text \<open>
  C15: when the traversal of \<open>Close\<close> may end, every session still in the map is closed, except those
  of workers that registered or were removed after \<open>Close\<close> began.
\<close>

theorem manager_close_complete:
  fixes X :: "(string, session_ref, 'm) xmap" and s :: "('m, 'msg) manager_net"
  assumes "session_map X" and "\<forall>r. sound_session (h r)" and "manager_reachable X h s"
    and "Ranging visited touched seen start \<in># mi_calls s" and "start - touched \<subseteq> visited"
    and "Get X w (mi_sm s) = Some r" and "w \<notin> touched"
  shows "ss_closed (mi_heap s r)"
proof -
  have "range_inv X s" using session_map.manager_reachable_inv [OF assms(1-3)] by blast
  with assms(4,7) have "w \<in> start \<longleftrightarrow> w \<in> dom (xm_Load X (sm_sessions (mi_sm s)))"
      "w \<in> visited \<longrightarrow> (\<forall>r. xm_Load X (sm_sessions (mi_sm s)) w = Some r \<longrightarrow> ss_closed (mi_heap s r))"
    unfolding range_inv_def by blast+
  with assms(5-7) show ?thesis by (auto simp: Get_def)
qed

lemma fmap_Range_small:
  "xm_Range fmap_xmap fmempty = []" "xm_Range fmap_xmap (fmupd k v fmempty) = [(k, v)]"
  by (simp_all add: fmap_xmap_def sorted_list_of_fset.rep_eq)

definition closing_labels :: "manager_label list" where
  "closing_labels = [MRegister ''w1'' 1, MRegAdd, MClose, MRegister ''w2'' 2,
     MVisit {} {''w2''} {(''w2'', 2), (''w1'', 1)} {''w1''} ''w1'' 1]"

lemma closing_reaches:
  "\<exists>s. exec_labels (manager_exec fmap_xmap) closing_labels (manager_started fmap_xmap open_sessions) = Some s
     \<and> Ranging {''w1''} {''w2''} {(''w2'', 2), (''w1'', 1)} {''w1''} \<in># mi_calls s
     \<and> Get fmap_xmap ''w1'' (mi_sm s) = Some 1 \<and> Get fmap_xmap ''w2'' (mi_sm s) = Some 2 \<and> \<not> ss_closed (mi_heap s 2)"
  by (simp add: closing_labels_def manager_started_def NewSessionManager_def proceed_def Get_def
      close_ref_def open_sessions_def NewSession_def Close_def closeOutbox_def keys_of_def fmap_xmap_simps fmap_Range_small)

theorem manager_close_complete_witness:
  "\<exists>s. manager_reachable fmap_xmap open_sessions s \<and> Get fmap_xmap ''w1'' (mi_sm s) = Some 1 \<and> ss_closed (mi_heap s 1)
     \<and> Get fmap_xmap ''w2'' (mi_sm s) = Some 2 \<and> \<not> ss_closed (mi_heap s 2)"
proof -
  from closing_reaches obtain s where s: "manager_reachable fmap_xmap open_sessions s"
      "Ranging {''w1''} {''w2''} {(''w2'', 2), (''w1'', 1)} {''w1''} \<in># mi_calls s"
      "Get fmap_xmap ''w1'' (mi_sm s) = Some 1" "Get fmap_xmap ''w2'' (mi_sm s) = Some 2" "\<not> ss_closed (mi_heap s 2)"
    using exec_labels_from_init by metis
  with manager_close_complete [OF fmap_sessions.session_map_axioms open_sessions_sound s(1,2) _ s(3)] show ?thesis by auto
qed

definition race_labels :: "manager_label list" where
  "race_labels = [MClose, MRangeEnd {} {} {} {}, MRegister ''w1'' 1, MRegAdd, MClear, MRegister ''w2'' 2, MRegAdd, MStore]"

text \<open>
  C31: a registration during \<open>Close\<close> can be lost.  After \<open>Close\<close> has traversed the map, worker 1
  registers and is dropped by \<open>Clear\<close> with its session still open; worker 2 registers before the
  counter is reset and is not counted.  When all calls have returned, worker 1 is not connected
  though nobody closed its session, worker 2 is connected though the count is zero; and once worker
  2 is removed, the count is negative and \<open>ListWorkers\<close> panics.
\<close>

theorem manager_close_race:
  "\<exists>s s'. manager_reachable fmap_xmap open_sessions s \<and> mi_calls s = {#}
     \<and> Get fmap_xmap ''w1'' (mi_sm s) = None \<and> \<not> ss_closed (mi_heap s 1)
     \<and> Get fmap_xmap ''w2'' (mi_sm s) = Some 2 \<and> ActiveWorkerCount (mi_sm s) = 0
     \<and> exec_labels (manager_exec fmap_xmap) [MUnregister ''w2'', MUnregSub] s = Some s' \<and> mi_calls s' = {#}
     \<and> ListWorkers fmap_xmap (mi_sm s') = Panic ''runtime error: makeslice: cap out of range''"
proof -
  have "\<exists>s s'. exec_labels (manager_exec fmap_xmap) race_labels (manager_started fmap_xmap open_sessions) = Some s
     \<and> mi_calls s = {#} \<and> Get fmap_xmap ''w1'' (mi_sm s) = None \<and> \<not> ss_closed (mi_heap s 1)
     \<and> Get fmap_xmap ''w2'' (mi_sm s) = Some 2 \<and> ActiveWorkerCount (mi_sm s) = 0
     \<and> exec_labels (manager_exec fmap_xmap) [MUnregister ''w2'', MUnregSub] s = Some s' \<and> mi_calls s' = {#}
     \<and> ListWorkers fmap_xmap (mi_sm s') = Panic ''runtime error: makeslice: cap out of range''"
    by (simp add: race_labels_def manager_started_def NewSessionManager_def proceed_def Get_def ActiveWorkerCount_def
        ListWorkers_def open_sessions_def NewSession_def keys_of_def fmap_xmap_simps fmap_Range_small)
  then obtain s s' where "manager_reachable fmap_xmap open_sessions s" and
     "mi_calls s = {#} \<and> Get fmap_xmap ''w1'' (mi_sm s) = None \<and> \<not> ss_closed (mi_heap s 1)
     \<and> Get fmap_xmap ''w2'' (mi_sm s) = Some 2 \<and> ActiveWorkerCount (mi_sm s) = 0
     \<and> exec_labels (manager_exec fmap_xmap) [MUnregister ''w2'', MUnregSub] s = Some s' \<and> mi_calls s' = {#}
     \<and> ListWorkers fmap_xmap (mi_sm s') = Panic ''runtime error: makeslice: cap out of range''"
    using exec_labels_from_init by metis
  then show ?thesis by (intro exI [of _ s] exI [of _ s']) blast
qed

end
