(* ===== verification/Worker_Streams.thy ===== *)
theory Worker_Streams
  imports Control_Plane Manager_Interleaving
begin

text \<open>
  All worker streams of a node at once.  Theory \<open>Control_Plane\<close> follows one call of
  \<open>CoordinateWorker\<close> with the session manager to itself; here any number of calls run at the same
  time, each with its own session, and share the manager of theory \<open>Manager_Interleaving\<close> with the
  shutdown that a change of leader starts.  A step is one access of a call to what is shared.

  A registration without a worker ends the process and is not a step.  The goroutines that answer
  events only send on the session; the writer only takes from its outbox and may close it.
\<close>

subsection \<open>The streams\<close>

text \<open>
  Where a call of \<open>CoordinateWorker\<close> is, with the value of its variable \<open>workerID\<close> as long as it
  matters: not called yet, in the \<open>select\<close> of its loop, inside \<open>Register\<close>, before the deferred
  \<open>Unregister\<close>, inside it, before the deferred \<open>Close\<close>, and returned.
\<close>

datatype stream_pc =
  StreamNew
  | StreamLoop string
  | StreamRegistering string manager_call
  | StreamLeaving string
  | StreamUnregistering
  | StreamClosing
  | StreamReturned

record ('m, 'msg) streams_net =
  sn_mgr :: "('m, 'msg) manager_net"
  sn_stream :: "session_ref \<Rightarrow> stream_pc"
  sn_leadership :: "LeadershipProvider option"

datatype 'msg stream_label =
  SOpen session_ref "go_error option" | SDone session_ref | SEnd session_ref
  | SRegister session_ref string | SRegistered session_ref
  | SUnregister session_ref | SUnregistered session_ref | SClose session_ref
  | SSend session_ref nat 'msg | SWrite session_ref | SWriteFails session_ref | SContext session_ref go_error
  | SLeadership "LeadershipProvider option" | SShutdown manager_label

fun registering_label :: "manager_call \<Rightarrow> manager_label" where
  "registering_label (RegClosing r) = MRegClose r"
| "registering_label c = MRegAdd"

text \<open>The steps of the manager's \<open>Close\<close>, which a change of leader and the shutdown of the server call.\<close>

fun shutdown_label :: "manager_label \<Rightarrow> bool" where
  "shutdown_label MClose = True"
| "shutdown_label (MVisit visited touched seen start k r) = True"
| "shutdown_label (MRangeEnd visited touched seen start) = True"
| "shutdown_label MClear = True"
| "shutdown_label MStore = True"
| "shutdown_label l = False"

definition put_session :: "session_ref \<Rightarrow> 'msg Session \<Rightarrow> ('m, 'msg) streams_net \<Rightarrow> ('m, 'msg) streams_net" where
  "put_session r session s = s\<lparr>sn_mgr := (sn_mgr s)\<lparr>mi_heap := (mi_heap (sn_mgr s))(r := session)\<rparr>\<rparr>"

definition go_to :: "session_ref \<Rightarrow> stream_pc \<Rightarrow> ('m, 'msg) streams_net \<Rightarrow> ('m, 'msg) streams_net" where
  "go_to r pc s = s\<lparr>sn_stream := (sn_stream s)(r := pc)\<rparr>"

definition manage ::
  "(string, session_ref, 'm) xmap \<Rightarrow> manager_label \<Rightarrow> ('m, 'msg) streams_net \<Rightarrow> ('m, 'msg) streams_net option" where
  "manage X l s = map_option (\<lambda>m. s\<lparr>sn_mgr := m\<rparr>) (manager_exec X l (sn_mgr s))"

fun streams_exec ::
  "(string, session_ref, 'm) xmap \<Rightarrow> LeibrixConfig \<Rightarrow> 'msg stream_label \<Rightarrow> ('m, 'msg) streams_net \<Rightarrow> ('m, 'msg) streams_net option" where
  "streams_exec X config (SOpen r streamErr) s =
     (if sn_stream s r = StreamNew \<and> requireLeader (sn_leadership s) (nc_NodeName (lc_Node config)) = None
      then Some (go_to r (StreamLoop '''') (put_session r (NewSession streamErr (nc_NodeName (lc_Node config))) s)) else None)"
| "streams_exec X config (SDone r) s =
     (case sn_stream s r of
        StreamLoop w \<Rightarrow> if ss_ctxErr (mi_heap (sn_mgr s) r) \<noteq> None then Some (go_to r (StreamLeaving w) s) else None
      | _ \<Rightarrow> None)"
| "streams_exec X config (SEnd r) s =
     (case sn_stream s r of StreamLoop w \<Rightarrow> Some (go_to r (StreamLeaving w) s) | _ \<Rightarrow> None)"
| "streams_exec X config (SRegister r workerID) s =
     (case sn_stream s r of
        StreamLoop w \<Rightarrow>
          map_option (go_to r (StreamRegistering workerID
              (case fst (xm_LoadAndStore X workerID r (sm_sessions (mi_sm (sn_mgr s)))) of Some r' \<Rightarrow> RegClosing r' | None \<Rightarrow> RegAdding)))
            (manage X (MRegister workerID r) s)
      | _ \<Rightarrow> None)"
| "streams_exec X config (SRegistered r) s =
     (case sn_stream s r of
        StreamRegistering w c \<Rightarrow> map_option (go_to r (StreamLoop w)) (manage X (registering_label c) s)
      | _ \<Rightarrow> None)"
| "streams_exec X config (SUnregister r) s =
     (case sn_stream s r of
        StreamLeaving w \<Rightarrow>
          if w \<noteq> '''' then
            map_option (go_to r (if fst (xm_LoadAndDelete X w (sm_sessions (mi_sm (sn_mgr s)))) = None then StreamClosing else StreamUnregistering))
              (manage X (MUnregister w) s)
          else Some (go_to r StreamClosing s)
      | _ \<Rightarrow> None)"
| "streams_exec X config (SUnregistered r) s =
     (if sn_stream s r = StreamUnregistering then map_option (go_to r StreamClosing) (manage X MUnregSub s) else None)"
| "streams_exec X config (SClose r) s =
     (if sn_stream s r = StreamClosing
      then map_option (\<lambda>h. go_to r StreamReturned (s\<lparr>sn_mgr := (sn_mgr s)\<lparr>mi_heap := h\<rparr>\<rparr>)) (close_ref r (mi_heap (sn_mgr s)))
      else None)"
| "streams_exec X config (SSend r pick msg) s =
     (if sn_stream s r = StreamNew then None
      else map_option (\<lambda>(err, session). put_session r session s) (Send pick msg (mi_heap (sn_mgr s) r)))"
| "streams_exec X config (SWrite r) s =
     (case ss_outbox (mi_heap (sn_mgr s) r) of
        [] \<Rightarrow> None
      | m # ms \<Rightarrow> Some (put_session r ((mi_heap (sn_mgr s) r)\<lparr>ss_outbox := ms\<rparr>) s))"
| "streams_exec X config (SWriteFails r) s =
     (if sn_stream s r = StreamNew then None
      else map_option (\<lambda>h. s\<lparr>sn_mgr := (sn_mgr s)\<lparr>mi_heap := h\<rparr>\<rparr>) (close_ref r (mi_heap (sn_mgr s))))"
| "streams_exec X config (SContext r err) s =
     (if sn_stream s r = StreamNew then None else Some (put_session r (cancel err (mi_heap (sn_mgr s) r)) s))"
| "streams_exec X config (SLeadership leadership) s = Some (s\<lparr>sn_leadership := leadership\<rparr>)"
| "streams_exec X config (SShutdown l) s = (if shutdown_label l then manage X l s else None)"

definition streams_started :: "(string, session_ref, 'm) xmap \<Rightarrow> LeadershipProvider option \<Rightarrow> ('m, 'msg) streams_net" where
  "streams_started X leadership =
     \<lparr>sn_mgr = manager_started X (\<lambda>r. NewSession None ''''), sn_stream = (\<lambda>r. StreamNew), sn_leadership = leadership\<rparr>"

lemma go_to_simps [simp]:
  "sn_mgr (go_to r pc s) = sn_mgr s" "sn_stream (go_to r pc s) = (sn_stream s)(r := pc)"
  "sn_leadership (go_to r pc s) = sn_leadership s"
  by (simp_all add: go_to_def)

lemma put_session_simps [simp]:
  "mi_sm (sn_mgr (put_session r x s)) = mi_sm (sn_mgr s)" "mi_heap (sn_mgr (put_session r x s)) = (mi_heap (sn_mgr s))(r := x)"
  "mi_calls (sn_mgr (put_session r x s)) = mi_calls (sn_mgr s)" "mi_shutdown (sn_mgr (put_session r x s)) = mi_shutdown (sn_mgr s)"
  "sn_stream (put_session r x s) = sn_stream s"
  by (simp_all add: put_session_def)

lemma manage_Some:
  "manage X l s = Some s' \<longleftrightarrow> (\<exists>m. manager_exec X l (sn_mgr s) = Some m \<and> s' = s\<lparr>sn_mgr := m\<rparr>)"
  by (auto simp: manage_def)

text \<open>A turn of the loop that runs alone is \<open>coordinateStep\<close>, and leaving alone is \<open>coordinateExit\<close>.\<close>

lemma Register_turn_alone:
  assumes "coordinateStep X r (Received (RecvMsg msg)) (w, mi_sm (sn_mgr s), mi_heap (sn_mgr s)) = Continue (w', sm, h) msg'"
    and "em_Payload msg = Some (Payload_Register reg)" and "sn_stream s r = StreamLoop w"
  shows "\<exists>s'. exec_labels (streams_exec X config) [SRegister r w', SRegistered r] s = Some s'
    \<and> mi_sm (sn_mgr s') = sm \<and> mi_heap (sn_mgr s') = h \<and> sn_stream s' = (sn_stream s)(r := StreamLoop w')"
proof -
  have run: "Register X w' r (mi_sm (sn_mgr s), mi_heap (sn_mgr s)) = Ok (sm, h)"
    using assms(1,2) by (auto simp: coordinateStep_def split: option.splits outcome.splits)
  obtain old m where stored: "xm_LoadAndStore X w' r (sm_sessions (mi_sm (sn_mgr s))) = (old, m)" by fastforce
  with run assms(3) show ?thesis
    by (cases old) (auto simp: manage_def Register_def close_ref_def go_to_def split: outcome.splits)
qed

lemma leave_alone:
  assumes "coordinateExit X r (w, mi_sm (sn_mgr s), mi_heap (sn_mgr s)) = Ok (sm, h)" and "sn_stream s r = StreamLeaving w"
  shows "\<exists>ls s'. exec_labels (streams_exec X config) (SUnregister r # ls @ [SClose r]) s = Some s'
    \<and> mi_sm (sn_mgr s') = sm \<and> mi_heap (sn_mgr s') = h \<and> sn_stream s' = (sn_stream s)(r := StreamReturned)"
proof -
  obtain x where x: "Close (mi_heap (sn_mgr s) r) = Ok x" "h = (mi_heap (sn_mgr s))(r := x)"
      "sm = (if w \<noteq> '''' then Unregister X w (mi_sm (sn_mgr s)) else mi_sm (sn_mgr s))"
    using assms(1) by (auto simp: coordinateExit_def Let_def split: outcome.splits)
  obtain old m where deleted: "xm_LoadAndDelete X w (sm_sessions (mi_sm (sn_mgr s))) = (old, m)" by fastforce
  show ?thesis
  proof (cases "w \<noteq> '''' \<and> old \<noteq> None")
    case True
    with x deleted assms(2) show ?thesis
      by (intro exI [of _ "[SUnregistered r]"]) (auto simp: manage_def Unregister_def close_ref_def go_to_def)
  next
    case False
    with x deleted assms(2) show ?thesis
      by (intro exI [of _ "[]"]) (auto simp: manage_def Unregister_def close_ref_def go_to_def)
  qed
qed

subsection \<open>Invariants\<close>

fun worker_of :: "stream_pc \<Rightarrow> string option" where
  "worker_of (StreamLoop w) = Some w"
| "worker_of (StreamRegistering w c) = Some w"
| "worker_of (StreamLeaving w) = Some w"
| "worker_of pc = None"

abbreviation sessions_of :: "(string, session_ref, 'm) xmap \<Rightarrow> ('m, 'msg) manager_net \<Rightarrow> string \<Rightarrow> session_ref option" where
  "sessions_of X m \<equiv> xm_Load X (sm_sessions (mi_sm m))"

text \<open>
  Streams that name one worker each, never the empty one: \<open>idOf\<close> says which.  A worker may still be
  named by several streams.
\<close>

fun names_one :: "(session_ref \<Rightarrow> string) \<Rightarrow> 'msg stream_label \<Rightarrow> bool" where
  "names_one idOf (SRegister r w) \<longleftrightarrow> w = idOf r \<and> w \<noteq> ''''"
| "names_one idOf l \<longleftrightarrow> True"

definition streams_inv :: "(string, session_ref, 'm) xmap \<Rightarrow> (session_ref \<Rightarrow> string) \<Rightarrow> ('m, 'msg) streams_net \<Rightarrow> bool" where
  "streams_inv X idOf s \<longleftrightarrow>
     (\<forall>r. sound_session (mi_heap (sn_mgr s) r))
     \<and> (\<forall>w r. sessions_of X (sn_mgr s) w = Some r \<longrightarrow> w \<noteq> '''' \<and> worker_of (sn_stream s r) = Some w)
     \<and> (\<forall>r w. worker_of (sn_stream s r) = Some w \<longrightarrow> w = '''' \<or> w = idOf r)
     \<and> (\<forall>r. sn_stream s r = StreamReturned \<longrightarrow> ss_closed (mi_heap (sn_mgr s) r))"

text \<open>
  When no two streams name the same worker and the manager is not being closed, the map holds every
  stream that has named its worker and not yet removed it.
\<close>

definition connected_inv :: "(string, session_ref, 'm) xmap \<Rightarrow> ('m, 'msg) streams_net \<Rightarrow> bool" where
  "connected_inv X s \<longleftrightarrow> (\<not> mi_shutdown (sn_mgr s) \<longrightarrow>
     (\<forall>c \<in># mi_calls (sn_mgr s). plain_call c)
     \<and> (\<forall>r w. worker_of (sn_stream s r) = Some w \<and> w \<noteq> '''' \<longrightarrow> sessions_of X (sn_mgr s) w = Some r))"

definition streams_reach ::
  "(string, session_ref, 'm) xmap \<Rightarrow> LeibrixConfig \<Rightarrow> LeadershipProvider option \<Rightarrow> (session_ref \<Rightarrow> string)
    \<Rightarrow> ('m, 'msg) streams_net \<Rightarrow> bool" where
  "streams_reach X config leadership idOf =
     reachable (\<lambda>s. s = streams_started X leadership) (lstep (restrict (names_one idOf) (streams_exec X config)))"

text \<open>What a step of the manager does to the map and to the sessions.\<close>

lemma manager_heap_step:
  assumes "manager_exec X l m = Some m'" and "\<forall>r. sound_session (mi_heap m r)"
  shows "(\<forall>r. sound_session (mi_heap m' r)) \<and> (\<forall>r. ss_closed (mi_heap m r) \<longrightarrow> ss_closed (mi_heap m' r))"
proof -
  consider "mi_heap m' = mi_heap m" | r h where "close_ref r (mi_heap m) = Some h" "mi_heap m' = h"
    using assms(1) by (cases l) (auto split: if_splits prod.splits)
  then show ?thesis
  proof cases
    case 1
    with assms(2) show ?thesis by simp
  next
    case 2
    with close_ref_Some [OF 2(1) assms(2)] show ?thesis by simp
  qed
qed

lemma Send_sound:
  assumes "Send pick msg x = Some (err, y)"
  shows "sound_session x \<Longrightarrow> sound_session y" "ss_closed y = ss_closed x"
  using Send_effect [OF assms] by (auto simp: sound_session_def)

lemma cancel_sound [simp]: "sound_session (cancel e x) = sound_session x"
  by (simp add: sound_session_def)

text \<open>A step of one stream that stores nothing in the map.\<close>

lemma streams_inv_frame:
  assumes "streams_inv X idOf s" and "\<forall>q. sound_session (mi_heap (sn_mgr s') q)"
    and "\<forall>q. q \<noteq> r \<longrightarrow> ss_closed (mi_heap (sn_mgr s) q) \<longrightarrow> ss_closed (mi_heap (sn_mgr s') q)"
    and "\<forall>w q. sessions_of X (sn_mgr s') w = Some q \<longrightarrow> sessions_of X (sn_mgr s) w = Some q"
    and "sn_stream s' = (sn_stream s)(r := pc)" and "pc = StreamReturned \<longrightarrow> ss_closed (mi_heap (sn_mgr s') r)"
    and "\<forall>w. worker_of pc = Some w \<longrightarrow> w = '''' \<or> worker_of (sn_stream s r) = Some w"
    and "\<forall>w. w \<noteq> '''' \<and> worker_of (sn_stream s r) = Some w \<longrightarrow> worker_of pc = Some w \<or> sessions_of X (sn_mgr s') w = None"
  shows "streams_inv X idOf s'"
proof -
  have worker: "w \<noteq> '''' \<and> worker_of (sn_stream s' q) = Some w" if "sessions_of X (sn_mgr s') w = Some q" for w q
  proof -
    from that assms(1,4) have "w \<noteq> ''''" "worker_of (sn_stream s q) = Some w" unfolding streams_inv_def by blast+
    with that assms(5,8) show ?thesis by (cases "q = r") simp_all
  qed
  moreover have "w = '''' \<or> w = idOf q" if "worker_of (sn_stream s' q) = Some w" for w q
  proof (cases "q = r")
    case True
    with that assms(1,5,7) show ?thesis unfolding streams_inv_def by (metis fun_upd_same)
  next
    case False
    with that assms(1,5) show ?thesis unfolding streams_inv_def by (metis fun_upd_other)
  qed
  moreover have "ss_closed (mi_heap (sn_mgr s') q)" if "sn_stream s' q = StreamReturned" for q
    using that assms(1,3,5,6) unfolding streams_inv_def by (metis fun_upd_apply)
  ultimately show ?thesis using assms(2) unfolding streams_inv_def by blast
qed

lemma streams_inv_same:
  assumes "streams_inv X idOf s" and "\<forall>q. sound_session (mi_heap (sn_mgr s') q)"
    and "\<forall>q. ss_closed (mi_heap (sn_mgr s) q) \<longrightarrow> ss_closed (mi_heap (sn_mgr s') q)"
    and "\<forall>w q. sessions_of X (sn_mgr s') w = Some q \<longrightarrow> sessions_of X (sn_mgr s) w = Some q"
    and "sn_stream s' = sn_stream s"
  shows "streams_inv X idOf s'"
  using assms(1-4) unfolding streams_inv_def assms(5) by blast

lemma manager_plain_step:
  assumes "manager_exec X l m = Some m'" and "\<not> mi_shutdown m'" and "\<forall>c \<in># mi_calls m. plain_call c"
  shows "(\<forall>c \<in># mi_calls m'. plain_call c) \<and> \<not> shutdown_label l"
proof -
  have "\<forall>c \<in># mi_calls m - N. plain_call c" for N using assms(3) in_diffD by fast
  then show ?thesis using assms by (cases l) (auto split: if_splits prod.splits option.splits)
qed

lemma manager_shutdown_step: "manager_exec X l m = Some m' \<Longrightarrow> mi_shutdown m \<Longrightarrow> mi_shutdown m'"
  by (cases l) (auto split: if_splits prod.splits)

lemma connected_frame:
  assumes "connected_inv X s" and "\<not> mi_shutdown (sn_mgr s') \<Longrightarrow> \<not> mi_shutdown (sn_mgr s)"
    and "\<not> mi_shutdown (sn_mgr s') \<Longrightarrow> \<forall>c \<in># mi_calls (sn_mgr s). plain_call c \<Longrightarrow> \<forall>c \<in># mi_calls (sn_mgr s'). plain_call c"
    and "sn_stream s' = (sn_stream s)(r := pc)"
    and "\<And>w. \<not> mi_shutdown (sn_mgr s') \<Longrightarrow> worker_of pc = Some w \<Longrightarrow> w \<noteq> '''' \<Longrightarrow> sessions_of X (sn_mgr s') w = Some r"
    and "\<And>q w. \<not> mi_shutdown (sn_mgr s') \<Longrightarrow> q \<noteq> r \<Longrightarrow> worker_of (sn_stream s q) = Some w \<Longrightarrow> w \<noteq> ''''
          \<Longrightarrow> sessions_of X (sn_mgr s') w = sessions_of X (sn_mgr s) w"
  shows "connected_inv X s'"
  unfolding connected_inv_def
proof (intro impI conjI allI)
  assume open': "\<not> mi_shutdown (sn_mgr s')"
  with assms(1,2) have old: "\<forall>c \<in># mi_calls (sn_mgr s). plain_call c"
      "\<And>r w. worker_of (sn_stream s r) = Some w \<Longrightarrow> w \<noteq> '''' \<Longrightarrow> sessions_of X (sn_mgr s) w = Some r"
    unfolding connected_inv_def by blast+
  show "\<forall>c \<in># mi_calls (sn_mgr s'). plain_call c" by (rule assms(3) [OF open' old(1)])
  fix q w assume "worker_of (sn_stream s' q) = Some w \<and> w \<noteq> ''''"
  with assms(4) assms(5) [OF open'] assms(6) [OF open', of q w] old(2) [of q w]
  show "sessions_of X (sn_mgr s') w = Some q" by (cases "q = r") simp_all
qed

context session_map
begin

lemma manager_map_step:
  assumes "manager_exec X l m = Some m'"
  shows "sessions_of X m' = (case l of
      MRegister w r \<Rightarrow> (sessions_of X m)(w \<mapsto> r)
    | MUnregister w \<Rightarrow> (sessions_of X m)(w := None)
    | MClear \<Rightarrow> Map.empty
    | _ \<Rightarrow> sessions_of X m)"
proof (cases l)
  case (MRegister w r)
  obtain m2 where "xm_LoadAndStore X w r (sm_sessions (mi_sm m)) = (sessions_of X m w, m2)" "xm_Load X m2 = (sessions_of X m)(w \<mapsto> r)"
    by (rule LoadAndStore_cases)
  with MRegister assms show ?thesis by auto
next
  case (MUnregister w)
  obtain m2 where "xm_LoadAndDelete X w (sm_sessions (mi_sm m)) = (sessions_of X m w, m2)" "xm_Load X m2 = (sessions_of X m)(w := None)"
    by (rule LoadAndDelete_cases)
  with MUnregister assms show ?thesis by auto
qed (use assms in \<open>auto split: if_splits\<close>)

lemma registering_map: "sessions_of X m' = sessions_of X m" if "manager_exec X (registering_label c) m = Some m'"
  using manager_map_step [OF that] by (cases c) simp_all

lemma shutdown_map:
  assumes "manager_exec X l m = Some m'" and "shutdown_label l" and "sessions_of X m' w = Some q"
  shows "sessions_of X m w = Some q"
  using manager_map_step [OF assms(1)] assms(2,3) by (cases l) simp_all

lemma streams_inv_register:
  assumes "streams_exec X config (SRegister r (idOf r)) s = Some s'" and "streams_inv X idOf s" and "idOf r \<noteq> ''''"
  shows "streams_inv X idOf s'"
proof -
  obtain w c m where run: "sn_stream s r = StreamLoop w" "manager_exec X (MRegister (idOf r) r) (sn_mgr s) = Some m"
      "s' = go_to r (StreamRegistering (idOf r) c) (s\<lparr>sn_mgr := m\<rparr>)"
    using assms(1) by (auto simp: manage_Some split: stream_pc.splits)
  have stored: "sessions_of X m = (sessions_of X (sn_mgr s))(idOf r \<mapsto> r)" using manager_map_step [OF run(2)] by simp
  have "(\<forall>r. sound_session (mi_heap m r)) \<and> (\<forall>r. ss_closed (mi_heap (sn_mgr s) r) \<longrightarrow> ss_closed (mi_heap m r))"
    using manager_heap_step [OF run(2)] assms(2) unfolding streams_inv_def by blast
  moreover have "sessions_of X (sn_mgr s) v = Some r \<Longrightarrow> v = idOf r" for v
    using assms(2) unfolding streams_inv_def by metis
  ultimately show ?thesis
    using assms(2,3) run(1) unfolding streams_inv_def run(3) by (auto simp: stored)
qed

lemma streams_inv_unregister:
  assumes "streams_exec X config (SUnregister r) s = Some s'" and "streams_inv X idOf s"
  shows "streams_inv X idOf s'"
proof -
  obtain w where w: "sn_stream s r = StreamLeaving w" using assms(1) by (auto split: stream_pc.splits)
  show ?thesis
  proof (cases "w = ''''")
    case True
    with w assms show ?thesis by (intro streams_inv_frame [OF assms(2), of s' r StreamClosing]) (auto simp: streams_inv_def)
  next
    case False
    define pc where "pc = (if sessions_of X (sn_mgr s) w = None then StreamClosing else StreamUnregistering)"
    then have pc: "worker_of pc = None" "pc \<noteq> StreamReturned" by simp_all
    from False obtain m where run: "manager_exec X (MUnregister w) (sn_mgr s) = Some m" "s' = go_to r pc (s\<lparr>sn_mgr := m\<rparr>)"
      using assms(1) w by (auto simp: manage_Some pc_def simp del: manager_exec.simps)
    have "mi_heap m = mi_heap (sn_mgr s)" using run(1) by (auto split: prod.splits)
    moreover have "sessions_of X m = (sessions_of X (sn_mgr s))(w := None)" using manager_map_step [OF run(1)] by simp
    ultimately show ?thesis
      using w run(2) pc assms(2) by (intro streams_inv_frame [OF assms(2), of s' r pc]) (auto simp: streams_inv_def)
  qed
qed

lemma streams_inv_step:
  assumes "streams_exec X config l s = Some s'" and "streams_inv X idOf s" and "names_one idOf l"
  shows "streams_inv X idOf s'"
proof (cases l)
  case (SRegister r w)
  with assms show ?thesis using streams_inv_register by auto
next
  case (SUnregister r)
  with assms show ?thesis using streams_inv_unregister by blast
next
  case (SOpen r e)
  with assms(1) have "sn_stream s r = StreamNew"
    "s' = go_to r (StreamLoop '''') (put_session r (NewSession e (nc_NodeName (lc_Node config))) s)" by (auto split: if_splits)
  with assms(2) show ?thesis
    by (intro streams_inv_frame [OF assms(2), of s' r "StreamLoop ''''"]) (auto simp: streams_inv_def sound_session_def NewSession_def)
next
  case (SDone r)
  with assms(1) obtain w where "sn_stream s r = StreamLoop w" "s' = go_to r (StreamLeaving w) s"
    by (auto split: stream_pc.splits if_splits)
  with assms(2) show ?thesis by (intro streams_inv_frame [OF assms(2), of s' r "StreamLeaving w"]) (auto simp: streams_inv_def)
next
  case (SEnd r)
  with assms(1) obtain w where "sn_stream s r = StreamLoop w" "s' = go_to r (StreamLeaving w) s" by (auto split: stream_pc.splits)
  with assms(2) show ?thesis by (intro streams_inv_frame [OF assms(2), of s' r "StreamLeaving w"]) (auto simp: streams_inv_def)
next
  case (SRegistered r)
  with assms(1) obtain w c m where run: "sn_stream s r = StreamRegistering w c" "manager_exec X (registering_label c) (sn_mgr s) = Some m"
      "s' = go_to r (StreamLoop w) (s\<lparr>sn_mgr := m\<rparr>)"
    by (auto simp: manage_Some split: stream_pc.splits)
  with manager_heap_step [OF run(2)] registering_map [OF run(2)] assms(2) show ?thesis
    by (intro streams_inv_frame [OF assms(2), of s' r "StreamLoop w"]) (auto simp: streams_inv_def)
next
  case (SUnregistered r)
  with assms(1) obtain m where run: "sn_stream s r = StreamUnregistering" "manager_exec X MUnregSub (sn_mgr s) = Some m"
      "s' = go_to r StreamClosing (s\<lparr>sn_mgr := m\<rparr>)"
    by (auto simp: manage_Some simp del: manager_exec.simps split: if_splits)
  with manager_heap_step [OF run(2)] manager_map_step [OF run(2)] assms(2) show ?thesis
    by (intro streams_inv_frame [OF assms(2), of s' r StreamClosing]) (auto simp: streams_inv_def simp del: manager_exec.simps)
next
  case (SClose r)
  with assms(1) obtain h where run: "sn_stream s r = StreamClosing" "close_ref r (mi_heap (sn_mgr s)) = Some h"
      "s' = go_to r StreamReturned (s\<lparr>sn_mgr := (sn_mgr s)\<lparr>mi_heap := h\<rparr>\<rparr>)"
    by (auto split: if_splits)
  with close_ref_Some [OF run(2)] assms(2) show ?thesis
    by (intro streams_inv_frame [OF assms(2), of s' r StreamReturned]) (auto simp: streams_inv_def)
next
  case (SSend r pick msg)
  with assms(1) obtain err x where run: "Send pick msg (mi_heap (sn_mgr s) r) = Some (err, x)" "s' = put_session r x s"
    by (auto split: if_splits)
  with Send_sound [OF run(1)] assms(2) show ?thesis by (intro streams_inv_same [OF assms(2)]) (auto simp: streams_inv_def)
next
  case (SWrite r)
  with assms show ?thesis
    by (intro streams_inv_same [OF assms(2)]) (auto simp: streams_inv_def sound_session_def split: list.splits)
next
  case (SWriteFails r)
  with assms(1) obtain h where run: "close_ref r (mi_heap (sn_mgr s)) = Some h" "s' = s\<lparr>sn_mgr := (sn_mgr s)\<lparr>mi_heap := h\<rparr>\<rparr>"
    by (auto split: if_splits)
  with close_ref_Some [OF run(1)] assms(2) show ?thesis by (intro streams_inv_same [OF assms(2)]) (auto simp: streams_inv_def)
next
  case (SContext r e)
  with assms show ?thesis by (intro streams_inv_same [OF assms(2)]) (auto simp: streams_inv_def split: if_splits)
next
  case (SLeadership p)
  with assms show ?thesis by (intro streams_inv_same [OF assms(2)]) (auto simp: streams_inv_def)
next
  case (SShutdown ml)
  with assms(1) obtain m where run: "manager_exec X ml (sn_mgr s) = Some m" "shutdown_label ml" "s' = s\<lparr>sn_mgr := m\<rparr>"
    by (auto simp: manage_Some split: if_splits)
  with manager_heap_step [OF run(1)] shutdown_map [OF run(1)] assms(2) show ?thesis
    by (intro streams_inv_same [OF assms(2)]) (auto simp: streams_inv_def)
qed

lemma connected_register:
  assumes "streams_exec X config (SRegister r (idOf r)) s = Some s'" and "streams_inv X idOf s" and "connected_inv X s" and "inj idOf"
  shows "connected_inv X s'"
proof -
  obtain w c m where run: "manager_exec X (MRegister (idOf r) r) (sn_mgr s) = Some m"
      "s' = go_to r (StreamRegistering (idOf r) c) (s\<lparr>sn_mgr := m\<rparr>)"
    using assms(1) by (auto simp: manage_Some split: stream_pc.splits)
  have stored: "sessions_of X m = (sessions_of X (sn_mgr s))(idOf r \<mapsto> r)" using manager_map_step [OF run(1)] by simp
  have other: "w \<noteq> idOf r" if "q \<noteq> r" "worker_of (sn_stream s q) = Some w" "w \<noteq> ''''" for q w
    using that assms(2,4) unfolding streams_inv_def by (metis injD)
  show ?thesis
    using manager_shutdown_step [OF run(1)] manager_plain_step [OF run(1)] other
    by (intro connected_frame [OF assms(3), of s' r "StreamRegistering (idOf r) c"]) (auto simp: run(2) stored)
qed

lemma connected_unregister:
  assumes "streams_exec X config (SUnregister r) s = Some s'" and "streams_inv X idOf s" and "connected_inv X s" and "inj idOf"
  shows "connected_inv X s'"
proof -
  obtain w where w: "sn_stream s r = StreamLeaving w" using assms(1) by (auto split: stream_pc.splits)
  show ?thesis
  proof (cases "w = ''''")
    case True
    with w assms(1) show ?thesis by (intro connected_frame [OF assms(3), of s' r StreamClosing]) auto
  next
    case False
    define pc where "pc = (if sessions_of X (sn_mgr s) w = None then StreamClosing else StreamUnregistering)"
    then have pc: "worker_of pc = None" by simp
    from False obtain m where run: "manager_exec X (MUnregister w) (sn_mgr s) = Some m" "s' = go_to r pc (s\<lparr>sn_mgr := m\<rparr>)"
      using assms(1) w by (auto simp: manage_Some pc_def simp del: manager_exec.simps)
    have "sessions_of X m = (sessions_of X (sn_mgr s))(w := None)" using manager_map_step [OF run(1)] by simp
    moreover have "v \<noteq> w" if "q \<noteq> r" "worker_of (sn_stream s q) = Some v" "v \<noteq> ''''" for q v
      using that w False assms(2,4) unfolding streams_inv_def by (metis injD worker_of.simps(3))
    ultimately show ?thesis
      using manager_shutdown_step [OF run(1)] manager_plain_step [OF run(1)] pc
      by (intro connected_frame [OF assms(3), of s' r pc]) (auto simp: run(2) simp del: manager_exec.simps)
  qed
qed

text \<open>Steps that keep the map and the calls, and at most end a stream's claim to its worker.\<close>

lemma connected_quiet:
  assumes "connected_inv X s" and "mi_shutdown (sn_mgr s') = mi_shutdown (sn_mgr s)" and "mi_calls (sn_mgr s') = mi_calls (sn_mgr s)"
    and "sessions_of X (sn_mgr s') = sessions_of X (sn_mgr s)" and "sn_stream s' = (sn_stream s)(r := pc)"
    and "\<And>w. worker_of pc = Some w \<Longrightarrow> w \<noteq> '''' \<Longrightarrow> worker_of (sn_stream s r) = Some w"
  shows "connected_inv X s'"
proof (rule connected_frame [OF assms(1)])
  fix w assume "\<not> mi_shutdown (sn_mgr s')" "worker_of pc = Some w" "w \<noteq> ''''"
  with assms(1,2,6) show "sessions_of X (sn_mgr s') w = Some r" unfolding connected_inv_def assms(4) by blast
qed (use assms in simp_all)

lemma connected_managed:
  assumes "connected_inv X s" and "manager_exec X l (sn_mgr s) = Some m" and "sessions_of X m = sessions_of X (sn_mgr s)"
    and "sn_mgr s' = m" and "sn_stream s' = (sn_stream s)(r := pc)"
    and "\<And>w. worker_of pc = Some w \<Longrightarrow> w \<noteq> '''' \<Longrightarrow> worker_of (sn_stream s r) = Some w"
  shows "connected_inv X s'"
proof (rule connected_frame [OF assms(1)])
  show op: "\<not> mi_shutdown (sn_mgr s') \<Longrightarrow> \<not> mi_shutdown (sn_mgr s)"
    using manager_shutdown_step [OF assms(2)] assms(4) by blast
  fix w assume "\<not> mi_shutdown (sn_mgr s')" "worker_of pc = Some w" "w \<noteq> ''''"
  with assms(1,6) op show "sessions_of X (sn_mgr s') w = Some r" unfolding connected_inv_def assms(3,4) by blast
qed (use assms(3-5) manager_plain_step [OF assms(2)] in simp_all)

lemma connected_step:
  assumes "streams_exec X config l s = Some s'" and "streams_inv X idOf s" and "connected_inv X s" and "names_one idOf l" and "inj idOf"
  shows "connected_inv X s'"
proof (cases l)
  case (SRegister r w)
  with assms show ?thesis using connected_register by auto
next
  case (SUnregister r)
  with assms show ?thesis using connected_unregister by blast
next
  case (SOpen r e)
  with assms(1) show ?thesis by (intro connected_quiet [OF assms(3), of s' r "StreamLoop ''''"]) (auto split: if_splits)
next
  case (SDone r)
  with assms(1) obtain w where "sn_stream s r = StreamLoop w" "s' = go_to r (StreamLeaving w) s"
    by (auto split: stream_pc.splits if_splits)
  then show ?thesis by (intro connected_quiet [OF assms(3), of s' r "StreamLeaving w"]) auto
next
  case (SEnd r)
  with assms(1) obtain w where "sn_stream s r = StreamLoop w" "s' = go_to r (StreamLeaving w) s" by (auto split: stream_pc.splits)
  then show ?thesis by (intro connected_quiet [OF assms(3), of s' r "StreamLeaving w"]) auto
next
  case (SRegistered r)
  with assms(1) obtain w c m where run: "sn_stream s r = StreamRegistering w c" "manager_exec X (registering_label c) (sn_mgr s) = Some m"
      "s' = go_to r (StreamLoop w) (s\<lparr>sn_mgr := m\<rparr>)"
    by (auto simp: manage_Some split: stream_pc.splits)
  then show ?thesis by (intro connected_managed [OF assms(3) run(2) registering_map [OF run(2)], of s' r "StreamLoop w"]) auto
next
  case (SUnregistered r)
  with assms(1) obtain m where run: "manager_exec X MUnregSub (sn_mgr s) = Some m" "s' = go_to r StreamClosing (s\<lparr>sn_mgr := m\<rparr>)"
    by (auto simp: manage_Some simp del: manager_exec.simps split: if_splits)
  then show ?thesis
    using manager_map_step [OF run(1)] by (intro connected_managed [OF assms(3) run(1), of s' r StreamClosing]) auto
next
  case (SClose r)
  with assms(1) show ?thesis by (intro connected_quiet [OF assms(3), of s' r StreamReturned]) (auto split: if_splits)
next
  case (SSend r pick msg)
  with assms(1) show ?thesis by (intro connected_quiet [OF assms(3), of s' r "sn_stream s r"]) (auto split: if_splits)
next
  case (SWrite r)
  with assms(1) show ?thesis by (intro connected_quiet [OF assms(3), of s' r "sn_stream s r"]) (auto split: list.splits)
next
  case (SWriteFails r)
  with assms(1) show ?thesis by (intro connected_quiet [OF assms(3), of s' r "sn_stream s r"]) (auto split: if_splits)
next
  case (SContext r e)
  with assms(1) show ?thesis by (intro connected_quiet [OF assms(3), of s' r "sn_stream s r"]) (auto split: if_splits)
next
  case (SLeadership p)
  with assms(1) show ?thesis by (intro connected_quiet [OF assms(3), of s' 0 "sn_stream s 0"]) auto
next
  case (SShutdown ml)
  with assms(1) obtain m where run: "manager_exec X ml (sn_mgr s) = Some m" "shutdown_label ml" "s' = s\<lparr>sn_mgr := m\<rparr>"
    by (auto simp: manage_Some split: if_splits)
  have "mi_shutdown m"
    using manager_plain_step [OF run(1)] manager_shutdown_step [OF run(1)] run(2) assms(3) unfolding connected_inv_def by blast
  with run(3) show ?thesis by (simp add: connected_inv_def)
qed

lemma streams_reach_inv:
  assumes "streams_reach X config leadership idOf s"
  shows "streams_inv X idOf s \<and> (inj idOf \<longrightarrow> connected_inv X s)"
  using assms unfolding streams_reach_def
proof induction
  case (reachable_init s)
  then show ?case
    by (simp add: streams_started_def streams_inv_def connected_inv_def manager_started_def NewSessionManager_def
        NewSession_def sound_session_def)
next
  case (reachable_step s s')
  then show ?case using streams_inv_step connected_step unfolding lstep_def by (metis restrict_Some)
qed

end

subsection \<open>Properties of all streams\<close>

text \<open>
  C7: take any number of streams each of which registers under one name only, and not the empty one,
  interleaved with each other and with shutdowns of the manager; workers may reconnect through new
  streams.  A worker that the manager finds connected is served by a stream that still handles this
  worker, and a call that has returned has closed its session and left nothing behind in the map.
\<close>

theorem streams_cleanup:
  assumes "session_map X" and "streams_reach X config leadership idOf s"
  shows "(\<forall>w r. Get X w (mi_sm (sn_mgr s)) = Some r \<longrightarrow> worker_of (sn_stream s r) = Some w)
    \<and> (\<forall>r. sn_stream s r = StreamReturned \<longrightarrow>
          ss_closed (mi_heap (sn_mgr s) r) \<and> (\<forall>w. Get X w (mi_sm (sn_mgr s)) \<noteq> Some r))"
  using session_map.streams_reach_inv [OF assms] by (fastforce simp: streams_inv_def Get_def)

text \<open>Two streams of one worker: the second one registers, then the first one ends.\<close>

abbreviation node1_is_leader :: "LeadershipProvider option" where
  "node1_is_leader \<equiv> Some \<lparr>lp_IsLeader = True, lp_LeaderName = ''node1''\<rparr>"

definition two_streams :: "string stream_label list" where
  "two_streams = [SOpen 1 None, SRegister 1 ''w1'', SRegistered 1, SOpen 2 None, SRegister 2 ''w1'', SRegistered 2,
     SDone 1, SUnregister 1, SUnregistered 1, SClose 1]"

lemmas streams_eval = streams_started_def manager_started_def NewSessionManager_def NewSession_def Close_def closeOutbox_def
  cancel_def close_ref_def manage_def go_to_def put_session_def proceed_def requireLeader_def fmap_xmap_simps fmap_Range_small
  keys_of_def Get_def ActiveWorkerCount_def

lemma two_streams_reach:
  "\<exists>s. exec_labels (streams_exec fmap_xmap example_config) two_streams (streams_started fmap_xmap node1_is_leader) = Some s
     \<and> sn_stream s 1 = StreamReturned"
  by (simp add: two_streams_def streams_eval)

lemma labels_reach:
  assumes "exec_labels (streams_exec X config) ls (streams_started X leadership) = Some s" and "\<forall>l \<in> set ls. names_one idOf l"
  shows "streams_reach X config leadership idOf s"
  unfolding streams_reach_def
  by (rule exec_labels_from_init [of _ ls]) (simp add: exec_labels_restrict [OF assms(2)] assms(1))

theorem streams_cleanup_witness:
  "\<exists>s. streams_reach fmap_xmap example_config node1_is_leader (\<lambda>r. ''w1'') (s :: (_, string) streams_net)
     \<and> sn_stream s 1 = StreamReturned \<and> ss_closed (mi_heap (sn_mgr s) 1) \<and> Get fmap_xmap ''w1'' (mi_sm (sn_mgr s)) \<noteq> Some 1"
proof -
  obtain s where run: "exec_labels (streams_exec fmap_xmap example_config) two_streams (streams_started fmap_xmap node1_is_leader) = Some s"
      "sn_stream s 1 = StreamReturned" using two_streams_reach by blast
  have reach: "streams_reach fmap_xmap example_config node1_is_leader (\<lambda>r. ''w1'') s"
    by (rule labels_reach [OF run(1)]) (simp add: two_streams_def)
  from streams_cleanup [OF fmap_sessions.session_map_axioms reach] run(2) reach show ?thesis by blast
qed

text \<open>
  C34: a connected worker can be reached.  Where each stream registers under one name, no two streams
  share a name and the manager has never been closed so far, the manager finds every stream whose worker is registered, at every moment
  of its loop, and what is sent to the worker goes into the session of that stream.
\<close>

theorem streams_connected:
  assumes "session_map X" and "streams_reach X config leadership idOf s" and "inj idOf" and "\<not> mi_shutdown (sn_mgr s)"
    and "sn_stream s r = StreamLoop w" and "w \<noteq> ''''"
  shows "Get X w (mi_sm (sn_mgr s)) = Some r
    \<and> ToWorker X pick w msg (mi_sm (sn_mgr s)) (mi_heap (sn_mgr s)) =
        map_option (\<lambda>(err, session). (err, (mi_heap (sn_mgr s))(r := session))) (Send pick msg (mi_heap (sn_mgr s) r))"
proof -
  have "connected_inv X s" using session_map.streams_reach_inv [OF assms(1,2)] assms(3) by blast
  with assms(4-6) have "sessions_of X (sn_mgr s) w = Some r" unfolding connected_inv_def by (metis worker_of.simps(1))
  then show ?thesis by (simp add: Get_def ToWorker_def)
qed

definition worker_name :: "session_ref \<Rightarrow> string" where
  "worker_name r = ''w'' @ string_of_nat r"

definition neighbours :: "string stream_label list" where
  "neighbours = [SOpen 1 None, SOpen 2 None, SRegister 2 (worker_name 2), SRegister 1 (worker_name 1), SRegistered 1,
     SRegistered 2, SEnd 2]"

lemma worker_name_eq [simp]: "worker_name q = worker_name r \<longleftrightarrow> q = r" "worker_name r \<noteq> ''''"
  by (auto simp: worker_name_def dest: string_of_nat_inj)

lemma neighbours_reach:
  "\<exists>s. exec_labels (streams_exec fmap_xmap example_config) neighbours (streams_started fmap_xmap node1_is_leader) = Some s
     \<and> sn_stream s 1 = StreamLoop (worker_name 1) \<and> \<not> mi_shutdown (sn_mgr s)"
  by (simp add: neighbours_def streams_eval)

theorem streams_connected_witness:
  "\<exists>s. streams_reach fmap_xmap example_config node1_is_leader worker_name (s :: (_, string) streams_net)
     \<and> Get fmap_xmap (worker_name 1) (mi_sm (sn_mgr s)) = Some 1"
proof -
  obtain s where run: "exec_labels (streams_exec fmap_xmap example_config) neighbours (streams_started fmap_xmap node1_is_leader) = Some s"
      "sn_stream s 1 = StreamLoop (worker_name 1)" "\<not> mi_shutdown (sn_mgr s)" using neighbours_reach by blast
  have reach: "streams_reach fmap_xmap example_config node1_is_leader worker_name s"
    by (rule labels_reach [OF run(1)]) (simp add: neighbours_def)
  have "inj worker_name" by (simp add: inj_def)
  from streams_connected [OF fmap_sessions.session_map_axioms reach this run(3,2)] reach show ?thesis by auto
qed

definition late_labels :: "string stream_label list" where
  "late_labels = [SOpen 1 None, SLeadership (Some \<lparr>lp_IsLeader = False, lp_LeaderName = ''node2''\<rparr>),
     SShutdown MClose, SShutdown (MRangeEnd {} {} {} {}), SShutdown MClear, SShutdown MStore, SRegister 1 ''w1'', SRegistered 1]"

text \<open>
  C35: a worker may stay with a node that no longer leads.  A call has passed the test for the
  leader and not yet registered its worker when the node loses the leadership and closes all
  sessions.  The registration that follows succeeds: all calls of the manager have returned, the node
  refuses new calls, and this worker stays connected through an open session, whose handler
  has no reason to return.
\<close>

theorem late_registration:
  "\<exists>s. streams_reach fmap_xmap example_config node1_is_leader (\<lambda>r. ''w1'') (s :: (_, string) streams_net)
     \<and> requireLeader (sn_leadership s) (nc_NodeName (lc_Node example_config)) \<noteq> None \<and> mi_calls (sn_mgr s) = {#}
     \<and> Get fmap_xmap ''w1'' (mi_sm (sn_mgr s)) = Some 1 \<and> sn_stream s 1 = StreamLoop ''w1''
     \<and> \<not> ss_closed (mi_heap (sn_mgr s) 1) \<and> ss_ctxErr (mi_heap (sn_mgr s) 1) = None"
proof -
  let ?s = "the (exec_labels (streams_exec fmap_xmap example_config) late_labels (streams_started fmap_xmap node1_is_leader))"
  have run: "exec_labels (streams_exec fmap_xmap example_config) late_labels (streams_started fmap_xmap node1_is_leader) = Some ?s"
    by (simp add: late_labels_def streams_eval)
  have "streams_reach fmap_xmap example_config node1_is_leader (\<lambda>r. ''w1'') ?s"
    by (rule labels_reach [OF run]) (simp add: late_labels_def)
  moreover have "requireLeader (sn_leadership ?s) (nc_NodeName (lc_Node example_config)) \<noteq> None \<and> mi_calls (sn_mgr ?s) = {#}
     \<and> Get fmap_xmap ''w1'' (mi_sm (sn_mgr ?s)) = Some 1 \<and> sn_stream ?s 1 = StreamLoop ''w1''
     \<and> \<not> ss_closed (mi_heap (sn_mgr ?s) 1) \<and> ss_ctxErr (mi_heap (sn_mgr ?s) 1) = None"
    by (simp add: late_labels_def streams_eval)
  ultimately show ?thesis by blast
qed

text \<open>
  The restriction on the names is needed: a stream that registers under a second name leaves the
  first one in the map, for a session that is closed.
\<close>

lemma renamed_worker_remains:
  "\<exists>s. exec_labels (streams_exec fmap_xmap example_config)
      [SOpen 1 None, SRegister 1 ''w1'', SRegistered 1, SRegister 1 ''w2'', SRegistered 1, SEnd 1, SUnregister 1, SUnregistered 1, SClose 1]
      (streams_started fmap_xmap node1_is_leader :: (_, string) streams_net) = Some s
    \<and> sn_stream s 1 = StreamReturned \<and> ss_closed (mi_heap (sn_mgr s) 1)
    \<and> Get fmap_xmap ''w1'' (mi_sm (sn_mgr s)) = Some 1 \<and> ActiveWorkerCount (mi_sm (sn_mgr s)) = 1"
  by (simp add: streams_eval)

end
