(* ===== verification/Stream_Progress.thy ===== *)
theory Stream_Progress
  imports Worker_Streams
begin

text \<open>
  Progress of the worker streams of theory \<open>Worker_Streams\<close>: the calls in progress at the manager are
  those of the streams, so a stream inside a call can always go on, and a stream whose session has
  ended returns.
\<close>

subsection \<open>The calls in progress\<close>

fun pending :: "stream_pc \<Rightarrow> manager_call option" where
  "pending (StreamRegistering w c) = Some c"
| "pending StreamUnregistering = Some UnregSubtracting"
| "pending pc = None"

definition calls_inv :: "('m, 'msg) streams_net \<Rightarrow> bool" where
  "calls_inv s \<longleftrightarrow>
     finite {r. sn_stream s r \<noteq> StreamNew}
     \<and> (\<forall>c. plain_call c \<longrightarrow> count (mi_calls (sn_mgr s)) c = card {r. pending (sn_stream s r) = Some c})
     \<and> (\<forall>r w c. sn_stream s r = StreamRegistering w c \<longrightarrow> c = RegAdding \<or> (\<exists>q. c = RegClosing q))"

text \<open>What a step of the manager takes out of the calls in progress, and what it puts in.\<close>

fun taken :: "manager_label \<Rightarrow> manager_call option" where
  "taken (MRegClose r) = Some (RegClosing r)"
| "taken MRegAdd = Some RegAdding"
| "taken MUnregSub = Some UnregSubtracting"
| "taken l = None"

fun given :: "(string, session_ref, 'm) xmap \<Rightarrow> 'm \<Rightarrow> manager_label \<Rightarrow> manager_call option" where
  "given X m (MRegister w r) = Some (case fst (xm_LoadAndStore X w r m) of Some r' \<Rightarrow> RegClosing r' | None \<Rightarrow> RegAdding)"
| "given X m (MUnregister w) = (if fst (xm_LoadAndDelete X w m) = None then None else Some UnregSubtracting)"
| "given X m l = None"

lemma count_touch_plain [simp]:
  "plain_call c \<Longrightarrow> count (image_mset (touch k v) M) c = count M c"
  "plain_call c \<Longrightarrow> count (image_mset (touch_all ks) M) c = count M c"
proof -
  assume c: "plain_call c"
  have "touch k v d = c \<longleftrightarrow> d = c" "touch_all ks d = c \<longleftrightarrow> d = c" for d using c by (cases d; cases c; auto)+
  then show "count (image_mset (touch k v) M) c = count M c" "count (image_mset (touch_all ks) M) c = count M c"
    by (induction M) auto
qed

lemma count_proceed:
  assumes "d \<in># M"
  shows "count (M - {#d#}) c + of_bool (d = c) = count M c"
  using assms by (auto simp: Suc_le_eq)

lemma manager_count_step:
  assumes "manager_exec X l m = Some m'" and "plain_call c"
  shows "count (mi_calls m') c + of_bool (taken l = Some c) =
    count (mi_calls m) c + of_bool (given X (sm_sessions (mi_sm m)) l = Some c)"
  using assms count_proceed
  by (cases l) (auto split: if_splits prod.splits option.splits)

lemma pending_upd:
  assumes "finite {q. f q \<noteq> StreamNew}"
  shows "card {q. pending ((f(r := pc)) q) = Some c} + of_bool (pending (f r) = Some c) =
    card {q. pending (f q) = Some c} + of_bool (pending pc = Some c)"
proof -
  define A where "A = {q. pending (f q) = Some c} - {r}"
  have "finite {q. pending (f q) = Some c}" by (rule finite_subset [OF _ assms]) auto
  then have "finite A" "r \<notin> A" by (simp_all add: A_def)
  then have card: "card (if b then insert r A else A) = card A + of_bool b" for b by simp
  have "{q. pending ((f(r := pc)) q) = Some c} = (if pending pc = Some c then insert r A else A)" by (auto simp: A_def)
  moreover have "{q. pending (f q) = Some c} = (if pending (f r) = Some c then insert r A else A)" by (auto simp: A_def)
  ultimately show ?thesis by (simp only: card)
qed

text \<open>A step of a stream and a step of the manager that belong together.\<close>

lemma calls_inv_frame:
  assumes "calls_inv s" and "sn_stream s' = (sn_stream s)(r := pc)"
    and "\<And>c. plain_call c \<Longrightarrow> count (mi_calls (sn_mgr s')) c + of_bool (pending (sn_stream s r) = Some c) =
          count (mi_calls (sn_mgr s)) c + of_bool (pending pc = Some c)"
    and "\<And>w c. pc = StreamRegistering w c \<Longrightarrow> c = RegAdding \<or> (\<exists>q. c = RegClosing q)"
  shows "calls_inv s'"
proof -
  have fin: "finite {q. sn_stream s q \<noteq> StreamNew}" using assms(1) by (simp add: calls_inv_def)
  have "{q. sn_stream s' q \<noteq> StreamNew} \<subseteq> insert r {q. sn_stream s q \<noteq> StreamNew}" by (auto simp: assms(2) split: if_splits)
  then have "finite {q. sn_stream s' q \<noteq> StreamNew}" using fin by (auto intro: finite_subset)
  moreover have "count (mi_calls (sn_mgr s')) c = card {q. pending (sn_stream s' q) = Some c}" if "plain_call c" for c
    using assms(3) [OF that] pending_upd [OF fin, of r pc c] assms(1) that unfolding calls_inv_def assms(2) by auto
  ultimately show ?thesis using assms(1,2,4) unfolding calls_inv_def by (auto split: if_splits)
qed

lemma calls_inv_same:
  assumes "calls_inv s" and "sn_stream s' = sn_stream s" and "\<And>c. plain_call c \<Longrightarrow> count (mi_calls (sn_mgr s')) c = count (mi_calls (sn_mgr s)) c"
  shows "calls_inv s'"
  using assms by (auto simp: calls_inv_def)

lemma calls_inv_managed:
  assumes "calls_inv s" and "manager_exec X l (sn_mgr s) = Some m" and "s' = go_to r pc (s\<lparr>sn_mgr := m\<rparr>)"
    and "taken l = pending (sn_stream s r)" and "given X (sm_sessions (mi_sm (sn_mgr s))) l = pending pc"
    and "\<And>w c. pc = StreamRegistering w c \<Longrightarrow> c = RegAdding \<or> (\<exists>q. c = RegClosing q)"
  shows "calls_inv s'"
  using manager_count_step [OF assms(2)] assms(3-6)
  by (intro calls_inv_frame [OF assms(1), of s' r pc]) simp_all

lemma shutdown_taken: "shutdown_label l \<Longrightarrow> taken l = None \<and> given X m l = None"
  by (cases l) simp_all

lemma calls_inv_register:
  assumes "streams_exec X config (SRegister r w) s = Some s'" and "calls_inv s"
  shows "calls_inv s'"
proof -
  define c where "c = (case fst (xm_LoadAndStore X w r (sm_sessions (mi_sm (sn_mgr s)))) of Some r' \<Rightarrow> RegClosing r' | None \<Rightarrow> RegAdding)"
  obtain v m where run: "sn_stream s r = StreamLoop v" "manager_exec X (MRegister w r) (sn_mgr s) = Some m"
      "s' = go_to r (StreamRegistering w c) (s\<lparr>sn_mgr := m\<rparr>)"
    using assms(1) by (auto simp: manage_Some c_def simp del: manager_exec.simps split: stream_pc.splits)
  show ?thesis
    by (rule calls_inv_managed [OF assms(2) run(2,3)]) (simp_all add: run(1) c_def split: option.splits)
qed

lemma calls_inv_unregister:
  assumes "streams_exec X config (SUnregister r) s = Some s'" and "calls_inv s"
  shows "calls_inv s'"
proof -
  obtain w where w: "sn_stream s r = StreamLeaving w" using assms(1) by (auto split: stream_pc.splits)
  show ?thesis
  proof (cases "w = ''''")
    case True
    with w assms(1) have "s' = go_to r StreamClosing s" by simp
    with w show ?thesis by (intro calls_inv_frame [OF assms(2), of s' r StreamClosing]) simp_all
  next
    case False
    define pc where "pc = (if fst (xm_LoadAndDelete X w (sm_sessions (mi_sm (sn_mgr s)))) = None then StreamClosing else StreamUnregistering)"
    from False w assms(1) obtain m where run: "manager_exec X (MUnregister w) (sn_mgr s) = Some m" "s' = go_to r pc (s\<lparr>sn_mgr := m\<rparr>)"
      by (auto simp: manage_Some pc_def simp del: manager_exec.simps)
    show ?thesis by (rule calls_inv_managed [OF assms(2) run]) (simp_all add: w pc_def split: if_splits)
  qed
qed

lemma calls_inv_step:
  assumes "streams_exec X config l s = Some s'" and "calls_inv s"
  shows "calls_inv s'"
proof (cases l)
  case (SRegister r w)
  with assms show ?thesis using calls_inv_register by blast
next
  case (SRegistered r)
  with assms(1) obtain w c m where run: "sn_stream s r = StreamRegistering w c" "manager_exec X (registering_label c) (sn_mgr s) = Some m"
      "s' = go_to r (StreamLoop w) (s\<lparr>sn_mgr := m\<rparr>)"
    by (auto simp: manage_Some split: stream_pc.splits)
  have "c = RegAdding \<or> (\<exists>q. c = RegClosing q)" using assms(2) run(1) unfolding calls_inv_def by blast
  with run assms(2) show ?thesis by (intro calls_inv_managed [OF assms(2) run(2,3)]) auto
next
  case (SUnregister r)
  with assms show ?thesis using calls_inv_unregister by blast
next
  case (SUnregistered r)
  with assms(1) obtain m where run: "sn_stream s r = StreamUnregistering" "manager_exec X MUnregSub (sn_mgr s) = Some m"
      "s' = go_to r StreamClosing (s\<lparr>sn_mgr := m\<rparr>)"
    by (auto simp: manage_Some simp del: manager_exec.simps split: if_splits)
  then show ?thesis by (intro calls_inv_managed [OF assms(2) run(2,3)]) auto
next
  case (SShutdown ml)
  with assms(1) obtain m where run: "manager_exec X ml (sn_mgr s) = Some m" "shutdown_label ml" "s' = s\<lparr>sn_mgr := m\<rparr>"
    by (auto simp: manage_Some split: if_splits)
  then show ?thesis
    using manager_count_step [OF run(1)] shutdown_taken [OF run(2), of X "sm_sessions (mi_sm (sn_mgr s))"]
    by (intro calls_inv_same [OF assms(2)]) auto
next
  case (SOpen r e)
  with assms(1) show ?thesis by (intro calls_inv_frame [OF assms(2), of s' r "StreamLoop ''''"]) (auto split: if_splits)
next
  case (SDone r)
  with assms(1) obtain w where "sn_stream s r = StreamLoop w" "s' = go_to r (StreamLeaving w) s"
    by (auto split: stream_pc.splits if_splits)
  then show ?thesis by (intro calls_inv_frame [OF assms(2), of s' r "StreamLeaving w"]) auto
next
  case (SEnd r)
  with assms(1) obtain w where "sn_stream s r = StreamLoop w" "s' = go_to r (StreamLeaving w) s" by (auto split: stream_pc.splits)
  then show ?thesis by (intro calls_inv_frame [OF assms(2), of s' r "StreamLeaving w"]) auto
next
  case (SClose r)
  with assms(1) show ?thesis by (intro calls_inv_frame [OF assms(2), of s' r StreamReturned]) (auto split: if_splits)
qed (use assms in \<open>auto intro!: calls_inv_same [OF assms(2)] split: if_splits list.splits\<close>)

subsection \<open>A stream whose session has ended\<close>

text \<open>The handler has left its loop, or the end of its session is a reason to leave it.\<close>

fun leaving :: "stream_pc \<Rightarrow> bool" where
  "leaving (StreamLeaving w) = True"
| "leaving StreamUnregistering = True"
| "leaving StreamClosing = True"
| "leaving StreamReturned = True"
| "leaving pc = False"

definition session_over :: "session_ref \<Rightarrow> ('m, 'msg) streams_net \<Rightarrow> bool" where
  "session_over r s \<longleftrightarrow>
     sn_stream s r \<noteq> StreamNew \<and> (ss_ctxErr (mi_heap (sn_mgr s) r) \<noteq> None \<or> leaving (sn_stream s r))"

text \<open>A session that is closed has its context cancelled.\<close>

definition tidy_session :: "'msg Session \<Rightarrow> bool" where
  "tidy_session x \<longleftrightarrow> sound_session x \<and> (ss_closed x \<longrightarrow> ss_ctxErr x \<noteq> None)"

definition progress_inv :: "('m, 'msg) streams_net \<Rightarrow> bool" where
  "progress_inv s \<longleftrightarrow> calls_inv s \<and> (\<forall>q. tidy_session (mi_heap (sn_mgr s) q))"

definition ending_inv :: "session_ref \<Rightarrow> ('m, 'msg) streams_net \<Rightarrow> bool" where
  "ending_inv r s \<longleftrightarrow> progress_inv s \<and> session_over r s"

text \<open>Closing a session ends its context, and no other operation of a session starts it again.\<close>

lemma close_ref_over:
  assumes "close_ref q h = Some h'"
  shows "ss_ctxErr (h r) \<noteq> None \<Longrightarrow> ss_ctxErr (h' r) \<noteq> None"
  using assms by (auto simp: close_ref_def Close_def closeOutbox_def cancel_def split: outcome.splits if_splits option.splits)

lemma close_ref_tidy:
  assumes "close_ref q h = Some h'" and "\<forall>q. tidy_session (h q)"
  shows "\<forall>q. tidy_session (h' q)"
proof -
  have "Close x = Ok y \<Longrightarrow> tidy_session x \<Longrightarrow> tidy_session y" for x y :: "'a Session"
    by (auto simp: Close_def closeOutbox_def cancel_def tidy_session_def sound_session_def split: if_splits option.splits)
  with assms show ?thesis by (auto simp: close_ref_def split: outcome.splits)
qed

lemma manager_heap_cases:
  assumes "manager_exec X l m = Some m'"
  obtains "mi_heap m' = mi_heap m" | q where "close_ref q (mi_heap m) = Some (mi_heap m')"
  using assms by (cases l) (auto split: if_splits prod.splits)

lemma manager_over_step:
  assumes "manager_exec X l m = Some m'" and "ss_ctxErr (mi_heap m r) \<noteq> None"
  shows "ss_ctxErr (mi_heap m' r) \<noteq> None"
  using assms close_ref_over by (metis manager_heap_cases)

text \<open>The steps that change the sessions: those of the manager, and those of one stream.\<close>

definition heap_step ::
  "(string, session_ref, 'm) xmap \<Rightarrow> ('m, 'msg) streams_net \<Rightarrow> 'msg session_heap \<Rightarrow> bool" where
  "heap_step X s h \<longleftrightarrow>
     (\<exists>l m. manager_exec X l (sn_mgr s) = Some m \<and> h = mi_heap m)
     \<or> (\<exists>q. close_ref q (mi_heap (sn_mgr s)) = Some h)
     \<or> (\<exists>q x. h = (mi_heap (sn_mgr s))(q := x) \<and> (tidy_session (mi_heap (sn_mgr s) q) \<longrightarrow> tidy_session x)
          \<and> (sn_stream s q = StreamNew \<or> (ss_ctxErr (mi_heap (sn_mgr s) q) \<noteq> None \<longrightarrow> ss_ctxErr x \<noteq> None)))"

lemma heap_step_manage: "manage X l s = Some s' \<Longrightarrow> heap_step X s (mi_heap (sn_mgr s'))"
  unfolding heap_step_def manage_Some by (elim exE conjE) (intro disjI1 exI, simp)

lemma heap_step_put:
  assumes "tidy_session (mi_heap (sn_mgr s) q) \<Longrightarrow> tidy_session x"
    and "sn_stream s q = StreamNew \<or> (ss_ctxErr (mi_heap (sn_mgr s) q) \<noteq> None \<longrightarrow> ss_ctxErr x \<noteq> None)"
  shows "heap_step X s ((mi_heap (sn_mgr s))(q := x))"
  using assms unfolding heap_step_def by blast

lemma heap_step_same: "heap_step X s (mi_heap (sn_mgr s))"
  using heap_step_put [of s q "mi_heap (sn_mgr s) q" X for q] by simp

lemma streams_heap_step:
  assumes "streams_exec X config l s = Some s'"
  shows "heap_step X s (mi_heap (sn_mgr s'))"
proof (cases l)
  case (SOpen r e)
  with assms show ?thesis
    by (auto simp: NewSession_def tidy_session_def sound_session_def intro!: heap_step_put split: if_splits)
next
  case (SSend r pick msg)
  with assms obtain err x where run: "Send pick msg (mi_heap (sn_mgr s) r) = Some (err, x)" "s' = put_session r x s"
    by (auto split: if_splits)
  with Send_sound [OF run(1)] Send_effect [OF run(1)] show ?thesis
    by (auto simp: heap_step_same tidy_session_def intro!: heap_step_put split: if_splits)
next
  case (SWrite r)
  with assms show ?thesis by (auto simp: tidy_session_def sound_session_def intro!: heap_step_put split: list.splits)
next
  case (SContext r e)
  with assms show ?thesis by (auto simp: cancel_def tidy_session_def sound_session_def intro!: heap_step_put split: if_splits option.splits)
next
  case (SClose r)
  with assms show ?thesis by (auto simp: heap_step_def split: if_splits)
next
  case (SWriteFails r)
  with assms show ?thesis by (auto simp: heap_step_def split: if_splits)
qed (use assms in \<open>auto simp: heap_step_same dest!: heap_step_manage split: stream_pc.splits if_splits\<close>)

lemma heap_step_tidy:
  assumes "heap_step X s h" and "\<forall>q. tidy_session (mi_heap (sn_mgr s) q)"
  shows "\<forall>q. tidy_session (h q)"
  using assms(1) unfolding heap_step_def
proof (elim disjE exE conjE)
  fix l m assume m: "manager_exec X l (sn_mgr s) = Some m" "h = mi_heap m"
  from m(1) show ?thesis by (rule manager_heap_cases) (use m(2) assms(2) close_ref_tidy in metis)+
next
  fix q assume "close_ref q (mi_heap (sn_mgr s)) = Some h"
  from close_ref_tidy [OF this assms(2)] show ?thesis .
qed (use assms(2) in auto)

lemma heap_step_over:
  assumes "heap_step X s h" and "sn_stream s r \<noteq> StreamNew" and "ss_ctxErr (mi_heap (sn_mgr s) r) \<noteq> None"
  shows "ss_ctxErr (h r) \<noteq> None"
  using assms(1) unfolding heap_step_def
proof (elim disjE exE conjE)
  fix l m assume m: "manager_exec X l (sn_mgr s) = Some m" "h = mi_heap m"
  from manager_over_step [OF m(1) assms(3)] m(2) show ?thesis by simp
next
  fix q assume "close_ref q (mi_heap (sn_mgr s)) = Some h"
  from close_ref_over [OF this assms(3)] show ?thesis .
qed (use assms(2,3) in auto)

lemma stream_step_other:
  assumes "streams_exec X config l s = Some s'" and "sn_stream s r \<noteq> StreamNew"
  shows "sn_stream s' r \<noteq> StreamNew"
  using assms
  by (cases l) (auto simp: manage_Some simp del: manager_exec.simps split: stream_pc.splits if_splits list.splits)

lemma leaving_step:
  assumes "streams_exec X config l s = Some s'" and "leaving (sn_stream s r)"
  shows "leaving (sn_stream s' r)"
  using assms
  by (cases l) (auto simp: manage_Some simp del: manager_exec.simps split: stream_pc.splits if_splits list.splits)

lemma progress_inv_step: "streams_exec X config l s = Some s' \<Longrightarrow> progress_inv s \<Longrightarrow> progress_inv s'"
  unfolding progress_inv_def using calls_inv_step heap_step_tidy [OF streams_heap_step] by blast

lemma session_over_step: "streams_exec X config l s = Some s' \<Longrightarrow> session_over r s \<Longrightarrow> session_over r s'"
  unfolding session_over_def using heap_step_over [OF streams_heap_step] stream_step_other leaving_step by blast

text \<open>The steps of one call of \<open>CoordinateWorker\<close> on its way to the return.\<close>

fun of_stream :: "session_ref \<Rightarrow> 'msg stream_label \<Rightarrow> bool" where
  "of_stream r (SDone q) \<longleftrightarrow> q = r"
| "of_stream r (SRegistered q) \<longleftrightarrow> q = r"
| "of_stream r (SUnregister q) \<longleftrightarrow> q = r"
| "of_stream r (SUnregistered q) \<longleftrightarrow> q = r"
| "of_stream r (SClose q) \<longleftrightarrow> q = r"
| "of_stream r l \<longleftrightarrow> False"

definition stream_act ::
  "(string, session_ref, 'm) xmap \<Rightarrow> LeibrixConfig \<Rightarrow> session_ref \<Rightarrow> ('m, 'msg) streams_net \<Rightarrow> ('m, 'msg) streams_net \<Rightarrow> bool" where
  "stream_act X config r s s' \<longleftrightarrow> (\<exists>l. of_stream r l \<and> streams_exec X config l s = Some s')"

lemma stream_actI: "of_stream r l \<Longrightarrow> streams_exec X config l s \<noteq> None \<Longrightarrow> \<exists>s'. stream_act X config r s s'"
  by (auto simp: stream_act_def)

fun stream_rank :: "stream_pc \<Rightarrow> nat" where
  "stream_rank StreamNew = 6"
| "stream_rank (StreamRegistering w c) = 5"
| "stream_rank (StreamLoop w) = 4"
| "stream_rank (StreamLeaving w) = 3"
| "stream_rank StreamUnregistering = 2"
| "stream_rank StreamClosing = 1"
| "stream_rank StreamReturned = 0"

fun registers :: "session_ref \<Rightarrow> 'msg stream_label \<Rightarrow> bool" where
  "registers r (SRegister q w) \<longleftrightarrow> q = r"
| "registers r l \<longleftrightarrow> False"

lemma close_ref_sound: "sound_session (h r) \<Longrightarrow> \<exists>h'. close_ref r h = Some h'"
  by (metis Close_sound close_ref_def outcome.simps(10))

lemma pending_call:
  assumes "calls_inv s" and "pending (sn_stream s r) = Some c" and "plain_call c"
  shows "c \<in># mi_calls (sn_mgr s)"
proof -
  have "{q. pending (sn_stream s q) = Some c} \<subseteq> {q. sn_stream s q \<noteq> StreamNew}" by auto
  then have "finite {q. pending (sn_stream s q) = Some c}" using assms(1) unfolding calls_inv_def by (blast intro: finite_subset)
  with assms(2) have "0 < card {q. pending (sn_stream s q) = Some c}" by (auto simp: card_gt_0_iff)
  then show ?thesis using assms(1,3) unfolding calls_inv_def by (metis count_greater_zero_iff)
qed

lemma stream_can_step:
  assumes "ending_inv r s" and "sn_stream s r \<noteq> StreamReturned"
  shows "\<exists>s'. stream_act X config r s s'"
proof (cases "sn_stream s r")
  case StreamNew
  with assms(1) show ?thesis by (simp add: ending_inv_def session_over_def)
next
  case (StreamLoop w)
  with assms(1) show ?thesis by (intro stream_actI [of r "SDone r"]) (auto simp: ending_inv_def session_over_def)
next
  case (StreamRegistering w c)
  from assms(1) have inv: "calls_inv s" "\<forall>q. sound_session (mi_heap (sn_mgr s) q)"
    by (simp_all add: ending_inv_def progress_inv_def tidy_session_def)
  with StreamRegistering consider "c = RegAdding" | q where "c = RegClosing q" unfolding calls_inv_def by blast
  then have "manager_exec X (registering_label c) (sn_mgr s) \<noteq> None"
  proof cases
    case 1
    with pending_call [OF inv(1), of r c] StreamRegistering show ?thesis by simp
  next
    case (2 q)
    with pending_call [OF inv(1), of r c] StreamRegistering close_ref_sound [of "mi_heap (sn_mgr s)" q] inv(2) show ?thesis by auto
  qed
  with StreamRegistering show ?thesis by (intro stream_actI [of r "SRegistered r"]) (auto simp: manage_def)
next
  case (StreamLeaving w)
  then show ?thesis by (intro stream_actI [of r "SUnregister r"]) (auto simp: manage_def split: prod.splits)
next
  case StreamUnregistering
  with pending_call [of s r UnregSubtracting] assms(1) show ?thesis
    by (intro stream_actI [of r "SUnregistered r"]) (auto simp: manage_def ending_inv_def progress_inv_def)
next
  case StreamClosing
  with close_ref_sound [of "mi_heap (sn_mgr s)" r] assms(1) show ?thesis
    by (intro stream_actI [of r "SClose r"]) (auto simp: ending_inv_def progress_inv_def tidy_session_def)
qed (use assms(2) in simp)

lemma stream_act_rank: "streams_exec X config l s = Some s' \<Longrightarrow> of_stream r l \<Longrightarrow> stream_rank (sn_stream s' r) < stream_rank (sn_stream s r)"
  by (cases l) (auto simp: manage_Some simp del: manager_exec.simps split: stream_pc.splits if_splits)

lemma stream_other_rank:
  assumes "streams_exec X config l s = Some s'" and "\<not> registers r l"
  shows "stream_rank (sn_stream s' r) \<le> stream_rank (sn_stream s r)"
  using assms
  by (cases l) (auto simp: manage_Some simp del: manager_exec.simps split: stream_pc.splits if_splits list.splits)

interpretation stream_progress:
  ranked_progress "lstep (restrict (\<lambda>l. \<not> registers r l) (streams_exec X config))" "stream_act X config r" "ending_inv r"
    "\<lambda>s. sn_stream s r = StreamReturned" "\<lambda>s. stream_rank (sn_stream s r)"
  for X :: "(string, session_ref, 'm) xmap" and config and r
proof
  fix s s' :: "('m, 'msg) streams_net"
  assume inv: "ending_inv r s"
  show "lstep (restrict (\<lambda>l. \<not> registers r l) (streams_exec X config)) s s' \<Longrightarrow> ending_inv r s'"
    using inv progress_inv_step session_over_step unfolding ending_inv_def lstep_def by (metis restrict_Some)
  show "lstep (restrict (\<lambda>l. \<not> registers r l) (streams_exec X config)) s s' \<Longrightarrow> stream_rank (sn_stream s' r) \<le> stream_rank (sn_stream s r)"
    using stream_other_rank by (auto simp: lstep_def)
  show "sn_stream s r \<noteq> StreamReturned \<Longrightarrow> \<exists>s'. stream_act X config r s s'" by (rule stream_can_step [OF inv])
  show "stream_act X config r s s' \<Longrightarrow> stream_rank (sn_stream s' r) < stream_rank (sn_stream s r)"
    using stream_act_rank by (auto simp: stream_act_def)
qed

subsection \<open>The stream returns\<close>

lemma run_progress_inv:
  assumes "\<sigma> 0 = streams_started X leadership" and "is_run (lstep (streams_exec X config)) \<sigma>"
  shows "progress_inv (\<sigma> n)"
proof (rule run_invariant [OF assms(2)])
  show "progress_inv (\<sigma> 0)"
    by (simp add: assms(1) progress_inv_def streams_started_def manager_started_def calls_inv_def NewSession_def tidy_session_def
        sound_session_def)
qed (auto simp: lstep_def dest: progress_inv_step)

text \<open>
  A stream whose session has ended returns, when it handles no further registration, is scheduled
  fairly, and its \<open>select\<close> does not ignore the end of the session for ever.
\<close>

lemma stream_returns:
  assumes "\<sigma> 0 = streams_started X leadership" and "is_run (lstep (streams_exec X config)) \<sigma>"
    and "weakly_fair (stream_act X config r) \<sigma>" and "session_over r (\<sigma> k)"
    and "\<And>n l. k \<le> n \<Longrightarrow> registers r l \<Longrightarrow> streams_exec X config l (\<sigma> n) \<noteq> Some (\<sigma> (Suc n))"
  shows "\<exists>n\<ge>k. sn_stream (\<sigma> n) r = StreamReturned"
proof -
  have "ending_inv r (\<sigma> k)" using run_progress_inv [OF assms(1,2)] assms(4) by (simp add: ending_inv_def)
  then have "\<exists>n. sn_stream (\<sigma> (k + n)) r = StreamReturned"
    using stream_progress.eventually_goal [OF run_restrict [OF assms(2), of k "\<lambda>l. \<not> registers r l"]
        weakly_fair_suffix [OF assms(3)]] assms(5) by simp
  then show ?thesis by (metis le_add1)
qed

end
