(* ===== verification/Leader_Loss.thy ===== *)
theory Leader_Loss
  imports Stream_Progress
begin

text \<open>
  What a node does for its workers when it loses the leadership: the session manager is closed while
  the streams of theory \<open>Worker_Streams\<close> go on, the traversal reaches the session of every worker
  that is connected, and the stream of that session returns.
\<close>

subsection \<open>The traversal reaches a session\<close>

text \<open>A call in progress that has not come to the entry of worker \<open>w\<close> yet, and will.\<close>

fun will_visit :: "string \<Rightarrow> session_ref \<Rightarrow> manager_call \<Rightarrow> bool" where
  "will_visit w r (Ranging visited touched seen start) \<longleftrightarrow>
     w \<in> start \<and> w \<notin> touched \<and> w \<notin> visited \<and> (\<forall>q. (w, q) \<in> seen \<longleftrightarrow> q = r)"
| "will_visit w r Clearing \<longleftrightarrow> False"
| "will_visit w r c \<longleftrightarrow> True"

fun is_ranging :: "manager_call \<Rightarrow> bool" where
  "is_ranging (Ranging visited touched seen start) = True"
| "is_ranging c = False"

lemma will_visit_touch [simp]: "v \<noteq> w \<Longrightarrow> will_visit w r (touch v x c) = will_visit w r c"
  by (cases c) auto

lemma is_ranging_touch [simp]: "is_ranging (touch v x c) = is_ranging c"
  by (cases c) auto

lemma plain_not_ranging: "plain_call c \<Longrightarrow> \<not> is_ranging c \<and> will_visit w r c"
  by (cases c) auto

definition closing :: "(string, session_ref, 'm) xmap \<Rightarrow> string \<Rightarrow> session_ref \<Rightarrow> ('m, 'msg) manager_net \<Rightarrow> bool" where
  "closing X w r m \<longleftrightarrow> sessions_of X m w = Some r \<and> (\<forall>c \<in># mi_calls m. will_visit w r c) \<and> (\<exists>c \<in># mi_calls m. is_ranging c)"

fun changes :: "string \<Rightarrow> manager_label \<Rightarrow> bool" where
  "changes w (MRegister v q) \<longleftrightarrow> v = w"
| "changes w (MUnregister v) \<longleftrightarrow> v = w"
| "changes w l \<longleftrightarrow> False"

text \<open>Taking out a call that is no traversal.\<close>

lemma closing_calls:
  assumes "closing X w r m" and "sessions_of X m' = sessions_of X m" and "mi_calls m' = mi_calls m - {#c#}" and "\<not> is_ranging c"
  shows "closing X w r m'"
proof -
  obtain d where "d \<in># mi_calls m" "is_ranging d" using assms(1) unfolding closing_def by blast
  with assms(4) have "d \<in># mi_calls m'" unfolding assms(3) by (metis in_diff_other)
  with \<open>is_ranging d\<close> assms show ?thesis unfolding closing_def by (metis in_diffD)
qed

context session_map
begin

lemma closing_visit:
  assumes "manager_exec X (MVisit V T S K k q) m = Some m'" and "closing X w r m" and "\<forall>q. sound_session (mi_heap m q)"
  shows "closing X w r m' \<or> ss_closed (mi_heap m' r)"
proof -
  from assms(1) obtain h where h: "close_ref q (mi_heap m) = Some h"
      "m' = proceed (Ranging V T S K) {#Ranging (insert k V) T S K#} (m\<lparr>mi_heap := h\<rparr>)"
      and c: "Ranging V T S K \<in># mi_calls m" "(k, q) \<in> S"
    by (auto split: if_splits)
  from assms(2) c(1) have visit: "will_visit w r (Ranging V T S K)" unfolding closing_def by blast
  show ?thesis
  proof (cases "k = w")
    case True
    with visit c(2) have "q = r" by simp
    with h close_ref_Some [OF h(1) assms(3)] show ?thesis by simp
  next
    case False
    with visit assms(2) h(2) show ?thesis unfolding closing_def by (auto dest: in_diffD)
  qed
qed

lemma closing_step:
  assumes "manager_exec X l m = Some m'" and "closing X w r m" and "\<not> changes w l" and "\<forall>q. sound_session (mi_heap m q)"
  shows "closing X w r m' \<or> ss_closed (mi_heap m' r)"
proof (cases l)
  case (MVisit V T S K k q)
  with assms closing_visit show ?thesis by blast
next
  case (MRegister v q)
  with assms have "v \<noteq> w" by simp
  with MRegister assms(1,2) manager_map_step [OF assms(1)] show ?thesis
    unfolding closing_def by (auto split: prod.splits option.splits)
next
  case (MUnregister v)
  with assms have "v \<noteq> w" by simp
  with MUnregister assms(1,2) manager_map_step [OF assms(1)] show ?thesis
    unfolding closing_def by (auto split: prod.splits if_splits)
next
  case MClose
  with assms(1,2) Range_keys [of "sm_sessions (mi_sm m)"] show ?thesis
    unfolding closing_def by (auto simp: Range_set keys_of_def)
next
  case (MRangeEnd V T S K)
  with assms(1,2) show ?thesis unfolding closing_def by (fastforce split: if_splits)
next
  case MClear
  with assms(1,2) show ?thesis unfolding closing_def by (fastforce split: if_splits)
next
  case (MRegClose q)
  with assms(1) show ?thesis by (intro disjI1 closing_calls [OF assms(2), of m' "RegClosing q"]) (auto split: if_splits)
next
  case MRegAdd
  with assms(1) show ?thesis by (intro disjI1 closing_calls [OF assms(2), of m' RegAdding]) (auto split: if_splits)
next
  case MUnregSub
  with assms(1) show ?thesis by (intro disjI1 closing_calls [OF assms(2), of m' UnregSubtracting]) (auto split: if_splits)
next
  case MStore
  with assms(1) show ?thesis by (intro disjI1 closing_calls [OF assms(2), of m' Storing]) (auto split: if_splits)
qed

lemma closing_starts:
  assumes "manager_exec X MClose m = Some m'" and "sessions_of X m w = Some r" and "\<forall>c \<in># mi_calls m. plain_call c"
  shows "closing X w r m'"
  using assms Range_keys [of "sm_sessions (mi_sm m)"] plain_not_ranging
  unfolding closing_def by (auto simp: Range_set keys_of_def)

end

subsection \<open>The stream of a session that is reached\<close>

definition losing_inv ::
  "(string, session_ref, 'm) xmap \<Rightarrow> (session_ref \<Rightarrow> string) \<Rightarrow> string \<Rightarrow> session_ref \<Rightarrow> ('m, 'msg) streams_net \<Rightarrow> bool" where
  "losing_inv X idOf w r s \<longleftrightarrow> streams_inv X idOf s \<and> progress_inv s \<and> sn_stream s r \<noteq> StreamNew
     \<and> (session_over r s \<or> closing X w r (sn_mgr s))"

definition visit_act ::
  "(string, session_ref, 'm) xmap \<Rightarrow> LeibrixConfig \<Rightarrow> session_ref \<Rightarrow> ('m, 'msg) streams_net \<Rightarrow> ('m, 'msg) streams_net \<Rightarrow> bool" where
  "visit_act X config r s s' \<longleftrightarrow> (\<exists>V T S K k. streams_exec X config (SShutdown (MVisit V T S K k r)) s = Some s')"

lemma closing_same: "mi_sm m' = mi_sm m \<Longrightarrow> mi_calls m' = mi_calls m \<Longrightarrow> closing X w r m' = closing X w r m"
  by (simp add: closing_def)

lemma closed_over: "progress_inv s \<Longrightarrow> sn_stream s r \<noteq> StreamNew \<Longrightarrow> ss_closed (mi_heap (sn_mgr s) r) \<Longrightarrow> session_over r s"
  by (simp add: progress_inv_def tidy_session_def session_over_def)

text \<open>What a step does to the manager: nothing but to the sessions, or one step that leaves \<open>w\<close> alone.\<close>

lemma manager_of_step:
  assumes "streams_exec X config l s = Some s'" and "streams_inv X idOf s" and "names_one idOf l" and "inj idOf"
    and "\<not> registers r l" and "worker_of (sn_stream s r) = Some (idOf r)" and "\<not> leaving (sn_stream s r)" and "idOf r \<noteq> ''''"
  shows "mi_sm (sn_mgr s') = mi_sm (sn_mgr s) \<and> mi_calls (sn_mgr s') = mi_calls (sn_mgr s)
    \<or> (\<exists>ml. \<not> changes (idOf r) ml \<and> manager_exec X ml (sn_mgr s) = Some (sn_mgr s'))"
proof -
  have other: "idOf q \<noteq> idOf r" if "q \<noteq> r" for q using assms(4) that by (auto dest: injD)
  show ?thesis
  proof (cases l)
    case (SRegister q v)
    with assms(3,5) other have "v \<noteq> idOf r" by auto
    with SRegister assms(1) show ?thesis
      by (intro disjI2 exI [of _ "MRegister v q"]) (auto simp: manage_Some simp del: manager_exec.simps split: stream_pc.splits)
  next
    case (SRegistered q)
    with assms(1) obtain w c where "sn_stream s q = StreamRegistering w c" by (auto split: stream_pc.splits)
    moreover have "\<not> changes (idOf r) (registering_label c)" by (cases c) simp_all
    ultimately show ?thesis
      using SRegistered assms(1) by (intro disjI2 exI [of _ "registering_label c"]) (auto simp: manage_Some)
  next
    case (SUnregister q)
    with assms(1) obtain v where v: "sn_stream s q = StreamLeaving v" by (auto split: stream_pc.splits)
    with assms(7) have "q \<noteq> r" by auto
    with v assms(2) other have "v = '''' \<or> v \<noteq> idOf r" unfolding streams_inv_def by (metis worker_of.simps(3))
    then show ?thesis
    proof (cases "v = ''''")
      case False
      with \<open>v = '''' \<or> v \<noteq> idOf r\<close> v SUnregister assms(1) show ?thesis
        by (intro disjI2 exI [of _ "MUnregister v"]) (auto simp: manage_Some simp del: manager_exec.simps)
    qed (use v SUnregister assms(1) in auto)
  next
    case (SUnregistered q)
    with assms(1) show ?thesis
      by (intro disjI2 exI [of _ MUnregSub]) (auto simp: manage_Some simp del: manager_exec.simps split: if_splits)
  next
    case (SShutdown ml)
    moreover from this assms(1) have "\<not> changes (idOf r) ml" by (cases ml) auto
    ultimately show ?thesis using assms(1) by (intro disjI2 exI [of _ ml]) (auto simp: manage_Some split: if_splits)
  qed (use assms(1) in \<open>auto split: if_splits list.splits stream_pc.splits\<close>)
qed

context session_map
begin

lemma losing_step:
  assumes "streams_exec X config l s = Some s'" and "losing_inv X idOf w r s" and "names_one idOf l" and "inj idOf" and "\<not> registers r l"
  shows "losing_inv X idOf w r s'"
proof -
  have inv: "streams_inv X idOf s" "progress_inv s" "sn_stream s r \<noteq> StreamNew" using assms(2) by (simp_all add: losing_inv_def)
  have inv': "streams_inv X idOf s'" "progress_inv s'" "sn_stream s' r \<noteq> StreamNew"
    using streams_inv_step [OF assms(1) inv(1) assms(3)] progress_inv_step [OF assms(1) inv(2)] stream_step_other [OF assms(1) inv(3)] .
  show ?thesis
  proof (cases "session_over r s")
    case True
    then show ?thesis using inv' session_over_step [OF assms(1)] by (simp add: losing_inv_def)
  next
    case False
    with assms(2) have closing: "closing X w r (sn_mgr s)" by (simp add: losing_inv_def)
    then have w: "w \<noteq> ''''" "worker_of (sn_stream s r) = Some w" using inv(1) unfolding closing_def streams_inv_def by blast+
    then have "w = idOf r" using inv(1) unfolding streams_inv_def by blast
    moreover have "\<not> leaving (sn_stream s r)" using False inv(3) by (simp add: session_over_def)
    ultimately have "closing X w r (sn_mgr s') \<or> ss_closed (mi_heap (sn_mgr s') r)"
      using manager_of_step [OF assms(1) inv(1) assms(3-5)] w closing closing_same [of "sn_mgr s'" "sn_mgr s"]
        closing_step [of _ "sn_mgr s" "sn_mgr s'" w r] inv(1) unfolding streams_inv_def by blast
    then show ?thesis using inv' closed_over by (auto simp: losing_inv_def)
  qed
qed

lemma visit_possible:
  assumes "losing_inv X idOf w r s" and "\<not> session_over r s"
  shows "\<exists>s'. visit_act X config r s s'"
proof -
  from assms have closing: "closing X w r (sn_mgr s)" and sound: "\<forall>q. sound_session (mi_heap (sn_mgr s) q)"
    by (simp_all add: losing_inv_def streams_inv_def)
  from closing obtain c where c: "c \<in># mi_calls (sn_mgr s)" "is_ranging c" "will_visit w r c" unfolding closing_def by blast
  then obtain V T S K where "c = Ranging V T S K" by (cases c) simp_all
  with c obtain h where "close_ref r (mi_heap (sn_mgr s)) = Some h" "w \<notin> V" "(w, r) \<in> S" "Ranging V T S K \<in># mi_calls (sn_mgr s)"
    using close_ref_sound [of "mi_heap (sn_mgr s)" r] sound by auto
  then have "streams_exec X config (SShutdown (MVisit V T S K w r)) s \<noteq> None" by (simp add: manage_def)
  then show ?thesis unfolding visit_act_def by blast
qed

lemma visit_closes:
  assumes "losing_inv X idOf w r s" and "visit_act X config r s s'"
  shows "session_over r s'"
proof -
  from assms(2) obtain V T S K k where run: "streams_exec X config (SShutdown (MVisit V T S K k r)) s = Some s'"
    unfolding visit_act_def by blast
  then obtain m h where m: "manager_exec X (MVisit V T S K k r) (sn_mgr s) = Some m" "s' = s\<lparr>sn_mgr := m\<rparr>"
    by (auto simp: manage_Some)
  then obtain h where h: "close_ref r (mi_heap (sn_mgr s)) = Some h" "mi_heap m = h" by (auto split: if_splits)
  have "ss_closed (h r)" using close_ref_Some [OF h(1)] assms(1) by (simp add: losing_inv_def streams_inv_def)
  then show ?thesis
    using closed_over [of s' r] progress_inv_step [OF run] assms(1) m(2) h(2) by (simp add: losing_inv_def)
qed

lemma losing_progress:
  assumes "inj idOf"
  shows "ranked_progress (lstep (restrict (\<lambda>l. \<not> registers r l) (restrict (names_one idOf) (streams_exec X config))))
    (visit_act X config r) (losing_inv X idOf w r) (session_over r) (\<lambda>s. of_bool (\<not> session_over r s) :: nat)"
proof
  fix s s' :: "('m, 'msg) streams_net"
  assume inv: "losing_inv X idOf w r s"
  show "lstep (restrict (\<lambda>l. \<not> registers r l) (restrict (names_one idOf) (streams_exec X config))) s s' \<Longrightarrow> losing_inv X idOf w r s'"
    using losing_step [OF _ inv _ assms] by (auto simp: lstep_def)
  show "lstep (restrict (\<lambda>l. \<not> registers r l) (restrict (names_one idOf) (streams_exec X config))) s s'
      \<Longrightarrow> (of_bool (\<not> session_over r s') :: nat) \<le> of_bool (\<not> session_over r s)"
    by (auto simp: lstep_def dest: session_over_step)
  show "\<not> session_over r s \<Longrightarrow> \<exists>s'. visit_act X config r s s'" by (rule visit_possible [OF inv])
  show "\<not> session_over r s \<Longrightarrow> visit_act X config r s s' \<Longrightarrow> (of_bool (\<not> session_over r s') :: nat) < of_bool (\<not> session_over r s)"
    using visit_closes [OF inv] by auto
qed

end

subsection \<open>Losing the leadership\<close>

text \<open>
  C9: a node that loses the leadership lets its workers go.  Take any infinite run of all streams in
  which each stream registers under one name and no two streams share a name.  At some time worker
  \<open>w\<close> is connected through stream \<open>r\<close>, no shutdown is in progress, and the manager is closed, as it is
  on a leader event.  If the traversal of that shutdown does not pass over the session for ever, the
  stream is scheduled fairly, and it handles no registration from then on, its call of
  \<open>CoordinateWorker\<close> returns.  Other streams may come and go, and further shutdowns may follow.
\<close>

theorem leader_loss_disconnects:
  assumes "session_map X" and "inj idOf" and "\<sigma> 0 = streams_started X leadership"
    and "is_run (lstep (restrict (names_one idOf) (streams_exec X config))) \<sigma>"
    and "weakly_fair (visit_act X config r) \<sigma>" and "weakly_fair (stream_act X config r) \<sigma>"
    and "Get X w (mi_sm (sn_mgr (\<sigma> k))) = Some r" and "\<forall>c \<in># mi_calls (sn_mgr (\<sigma> k)). plain_call c"
    and "streams_exec X config (SShutdown MClose) (\<sigma> k) = Some (\<sigma> (Suc k))"
    and "\<And>n v. k < n \<Longrightarrow> streams_exec X config (SRegister r v) (\<sigma> n) \<noteq> Some (\<sigma> (Suc n))"
  shows "\<exists>n>k. sn_stream (\<sigma> n) r = StreamReturned"
proof -
  let ?exec = "restrict (names_one idOf) (streams_exec X config)"
  have run: "is_run (lstep (streams_exec X config)) \<sigma>" using assms(4) unfolding is_run_def lstep_def by (metis restrict_Some)
  have no_more: "k < n \<Longrightarrow> registers r l \<Longrightarrow> streams_exec X config l (\<sigma> n) \<noteq> Some (\<sigma> (Suc n))" for n l
    using assms(10) by (cases l) auto
  have inv: "streams_inv X idOf (\<sigma> n)" for n
    using session_map.streams_reach_inv [OF assms(1)] run_reachable [OF assms(4)] assms(3) unfolding streams_reach_def by metis
  obtain m where m: "manager_exec X MClose (sn_mgr (\<sigma> k)) = Some m" "\<sigma> (Suc k) = (\<sigma> k)\<lparr>sn_mgr := m\<rparr>"
    using assms(9) by (auto simp: manage_Some simp del: manager_exec.simps)
  have "worker_of (sn_stream (\<sigma> k) r) = Some w" using inv [of k] assms(7) unfolding streams_inv_def Get_def by blast
  then have "sn_stream (\<sigma> (Suc k)) r \<noteq> StreamNew" using m(2) by auto
  moreover have "closing X w r (sn_mgr (\<sigma> (Suc k)))"
    using session_map.closing_starts [OF assms(1) m(1) _ assms(8)] assms(7) m(2) by (simp add: Get_def)
  ultimately have "losing_inv X idOf w r (\<sigma> (Suc k))"
    using inv run_progress_inv [OF assms(3) run] by (simp add: losing_inv_def)
  moreover have "is_run (lstep (restrict (\<lambda>l. \<not> registers r l) ?exec)) (\<lambda>n. \<sigma> (Suc k + n))"
    by (rule run_restrict [OF assms(4)]) (use no_more in auto)
  ultimately have "\<exists>n. session_over r (\<sigma> (Suc k + n))"
    using ranked_progress.eventually_goal [OF session_map.losing_progress [OF assms(1,2)] _ weakly_fair_suffix [OF assms(5)], of "Suc k" w] by simp
  then obtain n where "session_over r (\<sigma> (Suc k + n))" ..
  from stream_returns [OF assms(3) run assms(6) this] no_more obtain j where "Suc k + n \<le> j" "sn_stream (\<sigma> j) r = StreamReturned" by auto
  then show ?thesis by (intro exI [of _ j]) simp
qed

text \<open>A worker that is connected when the manager is closed.\<close>

definition loss_labels :: "string stream_label list" where
  "loss_labels = [SOpen 1 None, SRegister 1 (worker_name 1), SRegistered 1, SShutdown MClose,
     SShutdown (MVisit {} {} {(worker_name 1, 1)} {worker_name 1} (worker_name 1) 1),
     SDone 1, SUnregister 1, SUnregistered 1, SClose 1]"

abbreviation loss_exec ::
  "string stream_label \<Rightarrow> ((string, session_ref) fmap, string) streams_net \<Rightarrow> ((string, session_ref) fmap, string) streams_net option" where
  "loss_exec \<equiv> streams_exec fmap_xmap example_config"

abbreviation loss_run :: "nat \<Rightarrow> ((string, session_ref) fmap, string) streams_net" where
  "loss_run \<equiv> replay (restrict (names_one worker_name) loss_exec) loss_labels (streams_started fmap_xmap node1_is_leader)"

lemma loss_eval:
  "\<exists>s. exec_labels (restrict (names_one worker_name) loss_exec) loss_labels (streams_started fmap_xmap node1_is_leader) = Some s
     \<and> sn_stream s 1 = StreamReturned
     \<and> (\<forall>V T S K k. Ranging V T S K \<in># mi_calls (sn_mgr s) \<longrightarrow> k \<in> V \<or> (k, 1) \<notin> S)"
  by (simp add: loss_labels_def streams_eval restrict_def)

lemma loss_start:
  "loss_run 0 = streams_started fmap_xmap node1_is_leader"
  "Get fmap_xmap (worker_name 1) (mi_sm (sn_mgr (loss_run 3))) = Some 1" "mi_calls (sn_mgr (loss_run 3)) = {#}"
  "loss_exec (SShutdown MClose) (loss_run 3) = Some (loss_run (Suc 3))"
  by (simp_all add: replay_def loss_labels_def streams_eval restrict_def)

lemma loss_pcs:
  assumes "4 \<le> n"
  shows "sn_stream (loss_run n) 1 \<noteq> StreamRegistering v c"
proof -
  have "sn_stream (loss_run 4) 1 \<noteq> StreamRegistering v c" "sn_stream (loss_run 5) 1 \<noteq> StreamRegistering v c"
    "sn_stream (loss_run 6) 1 \<noteq> StreamRegistering v c" "sn_stream (loss_run 7) 1 \<noteq> StreamRegistering v c"
    "sn_stream (loss_run 8) 1 \<noteq> StreamRegistering v c"
    by (simp_all add: replay_def loss_labels_def streams_eval restrict_def)
  moreover have "sn_stream (loss_run n) 1 = StreamReturned" if "9 \<le> n"
  proof -
    obtain s where "exec_labels (restrict (names_one worker_name) loss_exec) loss_labels (streams_started fmap_xmap node1_is_leader) = Some s"
        "sn_stream s 1 = StreamReturned" using loss_eval by blast
    with replay_end [OF this(1), of n] that show ?thesis by (simp add: loss_labels_def)
  qed
  moreover have "n = 4 \<or> n = 5 \<or> n = 6 \<or> n = 7 \<or> n = 8 \<or> 9 \<le> n" using assms by linarith
  ultimately show ?thesis by fastforce
qed

lemma register_pc: "streams_exec X config (SRegister r v) s = Some s' \<Longrightarrow> \<exists>c. sn_stream s' r = StreamRegistering v c"
  by (auto simp: manage_Some split: stream_pc.splits)

theorem leader_loss_disconnects_witness: "\<exists>n>3. sn_stream (loss_run n) 1 = StreamReturned"
proof -
  obtain s where s: "exec_labels (restrict (names_one worker_name) loss_exec) loss_labels (streams_started fmap_xmap node1_is_leader) = Some s"
      "sn_stream s 1 = StreamReturned"
      "\<forall>V T S K k. Ranging V T S K \<in># mi_calls (sn_mgr s) \<longrightarrow> k \<in> V \<or> (k, 1) \<notin> S" using loss_eval by blast
  have "\<nexists>t. visit_act fmap_xmap example_config 1 s t"
    using s(3) by (auto simp: visit_act_def manage_Some split: if_splits)
  note visits = replay_fair [of _ _ _ _ "visit_act fmap_xmap example_config 1", OF s(1) this]
  have "\<nexists>t. stream_act fmap_xmap example_config 1 s t"
  proof
    assume "\<exists>t. stream_act fmap_xmap example_config 1 s t"
    then obtain l t where "of_stream 1 l" "loss_exec l s = Some t" unfolding stream_act_def by blast
    with s(2) show False by (cases l) simp_all
  qed
  note acts = replay_fair [of _ _ _ _ "stream_act fmap_xmap example_config 1", OF s(1) this]
  have "loss_exec (SRegister 1 v) (loss_run n) \<noteq> Some (loss_run (Suc n))" if "3 < n" for n v
  proof
    assume "loss_exec (SRegister 1 v) (loss_run n) = Some (loss_run (Suc n))"
    from register_pc [OF this] obtain c where "sn_stream (loss_run (Suc n)) 1 = StreamRegistering v c" ..
    with loss_pcs [of "Suc n"] that show False by simp
  qed
  note no_more = this
  have "inj worker_name" by (simp add: inj_def)
  moreover have "\<forall>c \<in># mi_calls (sn_mgr (loss_run 3)). plain_call c" unfolding loss_start(3) by simp
  ultimately show ?thesis
    using leader_loss_disconnects [OF fmap_sessions.session_map_axioms _ loss_start(1) replay_run [OF s(1)] visits acts loss_start(2) _ loss_start(4) no_more]
    by blast
qed

end
