(* ===== verification/Cluster_Events.thy ===== *)
theory Cluster_Events
  imports Leibrix_Prelude "HOL-Library.Finite_Map"
begin

text \<open>
  The events of the cluster: \<open>internal/cluster/cluster_event.go\<close> (their types),
  \<open>membership_listener.go\<close> (a listener that puts them into a queue), and the part of \<open>election.go\<close>
  that turns changes of the member keys in etcd into events.  The queue of \<open>xsync\<close>, the retries of
  \<open>backoff\<close> and the JSON codec of members are parameters.
\<close>

subsection \<open>Types\<close>

datatype MemberRole = Leader | Follower | Learner | Candidate

record MemberNode =
  mn_Name :: string
  mn_AdvertiseAddr :: string
  mn_ListenAddr :: string
  mn_Meta :: "(string, string) fmap"
  mn_Role :: "MemberRole option"

text \<open>A member that is only known by its name; a role that is not set is \<^term>\<open>None\<close>.\<close>

definition member_named :: "string \<Rightarrow> MemberNode" where
  "member_named name = \<lparr>mn_Name = name, mn_AdvertiseAddr = '''', mn_ListenAddr = '''', mn_Meta = fmempty, mn_Role = None\<rparr>"

type_synonym FencingToken = "64 word"

datatype EventType =
  EvtLeaderElected | EvtLeaderResigned | EvtLeaderExpired
  | EvtMemberJoined | EvtMemberLeft | EvtMemberExpired | EvtMemberUpdated

record LeaderEvent =
  lev_Type :: EventType
  lev_Member :: "MemberNode option"
  lev_Epoch :: FencingToken

record MembershipEvent =
  mev_Type :: EventType
  mev_Member :: MemberNode

record Event =
  evt_Type :: EventType
  evt_Leader :: "LeaderEvent option"
  evt_Member :: "MembershipEvent option"
  evt_Fencing :: FencingToken
  evt_Timestamp :: int

subsection \<open>The queueing listener\<close>

type_synonym 'q try_enqueue = "Event \<Rightarrow> 'q \<Rightarrow> bool \<times> 'q"

record 'q MembershipListener =
  ml_eventQueue :: 'q

text \<open>The constructor of the queue is an argument, and so is what has been done to the queue since.\<close>

definition NewMembershipListener :: "(int \<Rightarrow> 'q) \<Rightarrow> int \<Rightarrow> 'q MembershipListener" where
  "NewMembershipListener NewMPMCQueue queueSize = \<lparr>ml_eventQueue = NewMPMCQueue queueSize\<rparr>"

definition Consume :: "'q MembershipListener \<Rightarrow> 'q" where
  "Consume ml = ml_eventQueue ml"

text \<open>
  The retrying goroutine.  The list has one entry for each attempt the backoff policy allows within
  its time: what other goroutines do to the queue before that attempt.
\<close>

fun tryAddEvent :: "'q try_enqueue \<Rightarrow> Event \<Rightarrow> ('q \<Rightarrow> 'q) list \<Rightarrow> 'q \<Rightarrow> bool \<times> 'q" where
  "tryAddEvent TryEnqueue evt [] q = (False, q)"
| "tryAddEvent TryEnqueue evt (others # attempts) q =
     (case TryEnqueue evt (others q) of
        (True, q') \<Rightarrow> (True, q')
      | (False, q') \<Rightarrow> tryAddEvent TryEnqueue evt attempts q')"

definition OnLeaderChange :: "int \<Rightarrow> LeaderEvent \<Rightarrow> Event outcome" where
  "OnLeaderChange now ev =
     (case lev_Member ev of
        None \<Rightarrow> Panic nil_deref
      | Some member \<Rightarrow>
          Ok \<lparr>evt_Type = lev_Type ev, evt_Leader = Some ev, evt_Member = None, evt_Fencing = lev_Epoch ev, evt_Timestamp = now\<rparr>)"

definition OnMembershipChange :: "int \<Rightarrow> MembershipEvent \<Rightarrow> Event" where
  "OnMembershipChange now ev =
     \<lparr>evt_Type = mev_Type ev, evt_Leader = None, evt_Member = Some ev, evt_Fencing = 0, evt_Timestamp = now\<rparr>"

lemma tryAddEvent_once:
  assumes "\<And>q b q'. TryEnqueue evt q = (b, q') \<Longrightarrow> content q' = (if b then content q @ [evt] else content q)"
    and "\<And>others q. others \<in> set attempts \<Longrightarrow> content (others q) = content q"
    and "tryAddEvent TryEnqueue evt attempts q = (b, q')"
  shows "content q' = (if b then content q @ [evt] else content q)"
  using assms(2,3)
proof (induction attempts arbitrary: q)
  case (Cons others attempts)
  obtain b1 q1 where attempt: "TryEnqueue evt (others q) = (b1, q1)" by (cases "TryEnqueue evt (others q)")
  show ?case
  proof (cases b1)
    case True
    with Cons.prems attempt assms(1) [OF attempt] show ?thesis by auto
  next
    case False
    with Cons.prems attempt assms(1) [OF attempt] Cons.IH [of q1] show ?thesis by auto
  qed
qed simp

subsection \<open>Member keys\<close>

abbreviation membersKey :: string where "membersKey \<equiv> ''/leibri.io/cluster/members/''"
abbreviation electionKey :: string where "electionKey \<equiv> ''/leibri.io/cluster/leader-election''"

record etcd_kv =
  ek_Key :: string
  ek_Value :: string
  ek_CreateRevision :: int

datatype watch_type = EventTypePut | EventTypeDelete | EventType_other "32 word"

record watch_event =
  we_Type :: watch_type
  we_IsCreate :: bool
  we_Kv :: "etcd_kv option"
  we_PrevKv :: "etcd_kv option"

definition memberNameFromKey :: "string \<Rightarrow> string" where
  "memberNameFromKey key = (if length key \<le> length membersKey then key else drop (length membersKey) key)"

text \<open>Decoding fills a fresh member; an empty value is not decoded.  \<open>%v\<close> of an event type is its number.\<close>

definition buildMembershipEvent ::
  "(string \<Rightarrow> go_error + MemberNode) \<Rightarrow> watch_event \<Rightarrow> MembershipEvent outcome" where
  "buildMembershipEvent json_Unmarshal event =
     (let finish = (\<lambda>eventType key value.
            (case (if value \<noteq> '''' then json_Unmarshal value else Inr (member_named '''')) of
               Inl err \<Rightarrow> Err err
             | Inr member \<Rightarrow>
                 Ok \<lparr>mev_Type = eventType,
                     mev_Member = (if mn_Name member = '''' then member\<lparr>mn_Name := memberNameFromKey key\<rparr> else member)\<rparr>))
      in case we_Type event of
           EventTypePut \<Rightarrow>
             (case we_Kv event of
                None \<Rightarrow> Panic nil_deref
              | Some kv \<Rightarrow> finish (if we_IsCreate event then EvtMemberJoined else EvtMemberUpdated) (ek_Key kv) (ek_Value kv))
         | EventTypeDelete \<Rightarrow>
             (case we_PrevKv event of
                Some kv \<Rightarrow> finish EvtMemberLeft (ek_Key kv) (ek_Value kv)
              | None \<Rightarrow>
                (case we_Kv event of
                   Some kv \<Rightarrow> finish EvtMemberLeft (ek_Key kv) ''''
                 | None \<Rightarrow> finish EvtMemberLeft '''' ''''))
         | EventType_other n \<Rightarrow> Err (''unsupported event type: '' @ string_of_int (sint n)))"

text \<open>\<open>Members\<close>: the members that decode, in the order of the response; others are skipped.\<close>

definition Members :: "(string \<Rightarrow> go_error + MemberNode) \<Rightarrow> go_error + etcd_kv list \<Rightarrow> go_error + MemberNode list" where
  "Members json_Unmarshal resp =
     (case resp of
        Inl err \<Rightarrow> Inl err
      | Inr kvs \<Rightarrow> Inr (List.map_filter (\<lambda>kv. case json_Unmarshal (ek_Value kv) of Inl e \<Rightarrow> None | Inr m \<Rightarrow> Some m) kvs))"

lemma memberNameFromKey_inverse: "name \<noteq> '''' \<Longrightarrow> memberNameFromKey (membersKey @ name) = name"
  by (simp add: memberNameFromKey_def)

text \<open>
  What the watch of the member keys reports.  A put is a join when it creates the key and an
  update otherwise, a delete is a departure; the member is the decoded one, and one without a
  name, in particular a deleted one whose old value is unknown, gets the name it was registered
  under.
\<close>

lemma buildMembershipEvent_names:
  assumes "name \<noteq> ''''" and "ek_Key kv = membersKey @ name"
    and "json_Unmarshal (ek_Value kv) = Inr member" and "ek_Value kv \<noteq> ''''"
  shows "buildMembershipEvent json_Unmarshal \<lparr>we_Type = EventTypePut, we_IsCreate = c, we_Kv = Some kv, we_PrevKv = p\<rparr> =
      Ok \<lparr>mev_Type = (if c then EvtMemberJoined else EvtMemberUpdated),
          mev_Member = member\<lparr>mn_Name := (if mn_Name member = '''' then name else mn_Name member)\<rparr>\<rparr>
    \<and> buildMembershipEvent json_Unmarshal \<lparr>we_Type = EventTypeDelete, we_IsCreate = c, we_Kv = k, we_PrevKv = Some kv\<rparr> =
      Ok \<lparr>mev_Type = EvtMemberLeft,
          mev_Member = member\<lparr>mn_Name := (if mn_Name member = '''' then name else mn_Name member)\<rparr>\<rparr>
    \<and> buildMembershipEvent json_Unmarshal \<lparr>we_Type = EventTypeDelete, we_IsCreate = c, we_Kv = Some kv, we_PrevKv = None\<rparr> =
      Ok \<lparr>mev_Type = EvtMemberLeft, mev_Member = member_named name\<rparr>"
  using assms memberNameFromKey_inverse [OF assms(1)]
  by (simp add: buildMembershipEvent_def Let_def member_named_def)

lemma buildMembershipEvent_names_example:
  "buildMembershipEvent (\<lambda>v. Inr (member_named v))
     \<lparr>we_Type = EventTypeDelete, we_IsCreate = False,
      we_Kv = Some \<lparr>ek_Key = membersKey @ ''node2'', ek_Value = ''x'', ek_CreateRevision = 7\<rparr>, we_PrevKv = None\<rparr> =
   Ok \<lparr>mev_Type = EvtMemberLeft, mev_Member = member_named ''node2''\<rparr>"
  using buildMembershipEvent_names [of "''node2''"
      "\<lparr>ek_Key = membersKey @ ''node2'', ek_Value = ''x'', ek_CreateRevision = 7\<rparr>"
      "\<lambda>v. Inr (member_named v)" "member_named ''x''" False None None]
  by simp

end
