(* ===== verification/Election.thy ===== *)
theory Election
  imports Cluster_Events Leadership Config
begin

text \<open>
  \<open>internal/cluster/election.go\<close>: the listeners' sinks, the operations of the election service, and
  its two goroutines \<open>campaign\<close> and \<open>observeLeader\<close> as a step relation.  The etcd session, the
  election primitive and the client are not part of the repository: what they answer is an
  argument of the operations and a free choice of the steps.
\<close>

subsection \<open>Sinks\<close>

abbreviation listenerQueueSize :: nat where "listenerQueueSize \<equiv> 16"

record sink =
  sk_leaderCh :: "LeaderEvent list"
  sk_memberCh :: "MembershipEvent list"
  sk_done :: bool

definition newSink :: sink where
  "newSink = \<lparr>sk_leaderCh = [], sk_memberCh = [], sk_done = False\<rparr>"

definition sink_close :: "sink \<Rightarrow> sink" where
  "sink_close s = s\<lparr>sk_done := True\<rparr>"

text \<open>
  The four \<open>select\<close> statements of \<open>enqueueLeader\<close>.  Other goroutines may run between them: the
  three functions are what they do to the sink.  The last \<open>select\<close> may have two ready cases;
  \<open>pick\<close> says whether the done case is taken.
\<close>

definition enqueueLeader ::
  "(sink \<Rightarrow> sink) \<Rightarrow> (sink \<Rightarrow> sink) \<Rightarrow> (sink \<Rightarrow> sink) \<Rightarrow> bool \<Rightarrow> LeaderEvent \<Rightarrow> sink \<Rightarrow> bool \<times> sink" where
  "enqueueLeader i1 i2 i3 pick ev s =
     (if sk_done s then (False, s)
      else let s1 = i1 s
           in if length (sk_leaderCh s1) < 1 then (True, s1\<lparr>sk_leaderCh := sk_leaderCh s1 @ [ev]\<rparr>)
              else let s2 = i2 s1;
                       s3 = i3 (s2\<lparr>sk_leaderCh := tl (sk_leaderCh s2)\<rparr>)
                   in if length (sk_leaderCh s3) < 1 \<and> \<not> (sk_done s3 \<and> pick)
                      then (True, s3\<lparr>sk_leaderCh := sk_leaderCh s3 @ [ev]\<rparr>)
                      else (False, s3))"

definition enqueueMembership :: "(sink \<Rightarrow> sink) \<Rightarrow> bool \<Rightarrow> MembershipEvent \<Rightarrow> sink \<Rightarrow> bool \<times> sink" where
  "enqueueMembership i1 pick ev s =
     (if sk_done s then (False, s)
      else let s1 = i1 s
           in if length (sk_memberCh s1) < listenerQueueSize \<and> \<not> (sk_done s1 \<and> pick)
              then (True, s1\<lparr>sk_memberCh := sk_memberCh s1 @ [ev]\<rparr>)
              else (False, s1))"

text \<open>
  One turn of a listener's goroutine: a \<open>select\<close> on the done channel and the leader events that
  does not wait, then a waiting one on all three channels.  When several cases are ready either may
  be taken: \<open>pick1\<close> and \<open>pick2\<close> rank them (each lists the cases once), and the first ready one of the ranking is taken.  Other
  goroutines act on the sink between the two.
\<close>

datatype listener_case = CaseDone | CaseLeader | CaseMember

datatype delivery = DeliverLeader LeaderEvent | DeliverMember MembershipEvent | ListenerStops | ListenerWaits

fun listener_ready :: "sink \<Rightarrow> listener_case \<Rightarrow> bool" where
  "listener_ready s CaseDone = sk_done s"
| "listener_ready s CaseLeader = (sk_leaderCh s \<noteq> [])"
| "listener_ready s CaseMember = (sk_memberCh s \<noteq> [])"

fun listener_take :: "sink \<Rightarrow> listener_case \<Rightarrow> delivery \<times> sink" where
  "listener_take s CaseDone = (ListenerStops, s)"
| "listener_take s CaseLeader = (DeliverLeader (hd (sk_leaderCh s)), s\<lparr>sk_leaderCh := tl (sk_leaderCh s)\<rparr>)"
| "listener_take s CaseMember = (DeliverMember (hd (sk_memberCh s)), s\<lparr>sk_memberCh := tl (sk_memberCh s)\<rparr>)"

definition listenerTurn :: "listener_case list \<Rightarrow> (sink \<Rightarrow> sink) \<Rightarrow> listener_case list \<Rightarrow> sink \<Rightarrow> delivery \<times> sink" where
  "listenerTurn pick1 others pick2 s =
     (case find (listener_ready s) (filter (\<lambda>c. c \<noteq> CaseMember) pick1) of
        Some c \<Rightarrow> listener_take s c
      | None \<Rightarrow>
        (case find (listener_ready (others s)) pick2 of
           Some c \<Rightarrow> listener_take (others s) c
         | None \<Rightarrow> (ListenerWaits, others s)))"

subsection \<open>The election service\<close>

text \<open>
  \<open>le_sinks\<close> holds the sinks ever created, \<open>le_listeners\<close> the ids in the map of listeners;
  \<open>le_cancel\<close> and \<open>le_session\<close> say whether \<open>Start\<close> has set these fields.
\<close>

record LeibrixLeaderElection =
  le_config :: LeibrixConfig
  le_myNode :: MemberNode
  le_listeners :: "64 word set"
  le_sinks :: "64 word \<Rightarrow> sink"
  le_nextListenerID :: "64 word"
  le_currentLeader :: string
  le_cancel :: bool
  le_session :: bool

abbreviation le_nodeName :: "LeibrixLeaderElection \<Rightarrow> string" where
  "le_nodeName l \<equiv> nc_NodeName (lc_Node (le_config l))"

definition NewLeaderElection ::
  "go_error option \<Rightarrow> (clientv3_Config \<Rightarrow> go_error + 'c) \<Rightarrow> LeibrixConfig \<Rightarrow> go_error + LeibrixLeaderElection \<times> 'c" where
  "NewLeaderElection loggerErr clientv3_New config =
     (case loggerErr of
        Some err \<Rightarrow> Inl (''failed to initialize election logger: '' @ err)
      | None \<Rightarrow>
        (case clientv3_New (DefaultEtcdClientConfig (cc_ListenClientUrls (lc_ClusterConfig config))) of
           Inl err \<Rightarrow> Inl (''failed to create etcd client: '' @ err)
         | Inr cli \<Rightarrow>
           Inr (\<lparr>le_config = config,
                 le_myNode = \<lparr>mn_Name = nc_NodeName (lc_Node config),
                   mn_AdvertiseAddr = nc_HostName (lc_Node config) @ '':'' @ string_of_int (nc_AdvertisePort (lc_Node config)),
                   mn_ListenAddr = nc_HostName (lc_Node config) @ '':'' @ string_of_int (nc_ListenPort (lc_Node config)),
                   mn_Meta = fmempty, mn_Role = Some Candidate\<rparr>,
                 le_listeners = {}, le_sinks = (\<lambda>i. newSink), le_nextListenerID = 0, le_currentLeader = '''',
                 le_cancel = False, le_session = False\<rparr>, cli)))"

definition Watch :: "LeibrixLeaderElection \<Rightarrow> 64 word \<times> LeibrixLeaderElection" where
  "Watch l =
     (let i = le_nextListenerID l + 1
      in (i, l\<lparr>le_nextListenerID := i, le_listeners := insert i (le_listeners l), le_sinks := (le_sinks l)(i := newSink)\<rparr>))"

definition removeListener :: "64 word \<Rightarrow> LeibrixLeaderElection \<Rightarrow> LeibrixLeaderElection" where
  "removeListener i l =
     (if i \<in> le_listeners l
      then l\<lparr>le_listeners := le_listeners l - {i}, le_sinks := (le_sinks l)(i := sink_close (le_sinks l i))\<rparr>
      else l)"

definition closeAllListeners :: "LeibrixLeaderElection \<Rightarrow> LeibrixLeaderElection" where
  "closeAllListeners l =
     l\<lparr>le_listeners := {}, le_sinks := (\<lambda>i. if i \<in> le_listeners l then sink_close (le_sinks l i) else le_sinks l i)\<rparr>"

text \<open>
  A broadcast enqueues to every listener of the map; \<open>sched\<close> has, for each of them, what other
  goroutines do at its sink meanwhile.  The sinks are independent, so their order does not matter.
\<close>

record interference =
  if_1 :: "sink \<Rightarrow> sink"
  if_2 :: "sink \<Rightarrow> sink"
  if_3 :: "sink \<Rightarrow> sink"
  if_pick :: bool

definition broadcastLeaderEvent ::
  "(64 word \<Rightarrow> interference) \<Rightarrow> LeaderEvent \<Rightarrow> LeibrixLeaderElection \<Rightarrow> LeibrixLeaderElection" where
  "broadcastLeaderEvent sched ev l =
     l\<lparr>le_sinks := (\<lambda>i. if i \<in> le_listeners l
        then snd (enqueueLeader (if_1 (sched i)) (if_2 (sched i)) (if_3 (sched i)) (if_pick (sched i)) ev (le_sinks l i))
        else le_sinks l i)\<rparr>"

definition broadcastMembershipEvent ::
  "(64 word \<Rightarrow> interference) \<Rightarrow> MembershipEvent \<Rightarrow> LeibrixLeaderElection \<Rightarrow> LeibrixLeaderElection" where
  "broadcastMembershipEvent sched ev l =
     l\<lparr>le_sinks := (\<lambda>i. if i \<in> le_listeners l
        then snd (enqueueMembership (if_1 (sched i)) (if_pick (sched i)) ev (le_sinks l i))
        else le_sinks l i)\<rparr>"

definition IsLeader :: "LeibrixLeaderElection \<Rightarrow> bool" where
  "IsLeader l \<longleftrightarrow> mn_Role (le_myNode l) = Some Leader"

definition LeaderName :: "LeibrixLeaderElection \<Rightarrow> string" where
  "LeaderName l = le_currentLeader l"

definition setRole :: "MemberRole \<Rightarrow> string \<Rightarrow> LeibrixLeaderElection \<Rightarrow> LeibrixLeaderElection" where
  "setRole role leader l = l\<lparr>le_myNode := (le_myNode l)\<lparr>mn_Role := Some role\<rparr>, le_currentLeader := leader\<rparr>"

definition becomeLeader :: "LeibrixLeaderElection \<Rightarrow> LeibrixLeaderElection" where
  "becomeLeader l = setRole Leader (mn_Name (le_myNode l)) l"

definition loseLeadership ::
  "(64 word \<Rightarrow> interference) \<Rightarrow> EventType \<Rightarrow> LeibrixLeaderElection \<Rightarrow> LeibrixLeaderElection" where
  "loseLeadership sched eventType l =
     broadcastLeaderEvent sched \<lparr>lev_Type = eventType, lev_Member = Some (member_named (le_nodeName l)), lev_Epoch = 0\<rparr>
       (setRole Candidate '''' l)"

text \<open>\<open>resign\<close> calls etcd only when the node believes to be the leader; the argument is etcd's answer.\<close>

definition resign :: "go_error option \<Rightarrow> LeibrixLeaderElection \<Rightarrow> go_error option" where
  "resign election_Resign l = (if mn_Role (le_myNode l) = Some Leader then election_Resign else None)"

text \<open>One response of the election's observer: the current leader's key, or none.\<close>

definition observeResponse :: "(64 word \<Rightarrow> interference) \<Rightarrow> etcd_kv list \<Rightarrow> LeibrixLeaderElection \<Rightarrow> LeibrixLeaderElection" where
  "observeResponse sched kvs l =
     (case kvs of
        [] \<Rightarrow> l
      | kv # _ \<Rightarrow>
        (let leaderName = ek_Value kv
         in broadcastLeaderEvent sched
              \<lparr>lev_Type = EvtLeaderElected, lev_Member = Some (member_named leaderName),
               lev_Epoch = word_of_int (ek_CreateRevision kv)\<rparr>
              (setRole (if leaderName = le_nodeName l then Leader else Follower) leaderName l)))"

text \<open>The members' watch: an event that cannot be decoded is skipped; the goroutine ends when the channel is closed.\<close>

fun observeEvents ::
  "(string \<Rightarrow> go_error + MemberNode) \<Rightarrow> (64 word \<Rightarrow> interference) \<Rightarrow> watch_event list \<Rightarrow> LeibrixLeaderElection
   \<Rightarrow> LeibrixLeaderElection outcome" where
  "observeEvents json_Unmarshal sched [] l = Ok l"
| "observeEvents json_Unmarshal sched (event # events) l =
     (case buildMembershipEvent json_Unmarshal event of
        Err err \<Rightarrow> observeEvents json_Unmarshal sched events l
      | Panic p \<Rightarrow> Panic p
      | Ok ev \<Rightarrow> observeEvents json_Unmarshal sched events (broadcastMembershipEvent sched ev l))"

fun observeMembers ::
  "(string \<Rightarrow> go_error + MemberNode) \<Rightarrow> (64 word \<Rightarrow> interference) \<Rightarrow> watch_event list list \<Rightarrow> LeibrixLeaderElection
   \<Rightarrow> LeibrixLeaderElection outcome" where
  "observeMembers json_Unmarshal sched [] l = Ok l"
| "observeMembers json_Unmarshal sched (resp # watchChan) l =
     (case observeEvents json_Unmarshal sched resp l of
        Err err \<Rightarrow> Err err
      | Panic p \<Rightarrow> Panic p
      | Ok l' \<Rightarrow> observeMembers json_Unmarshal sched watchChan l')"

subsection \<open>Start and Close\<close>

text \<open>What the two operations do to the outside, in order.\<close>

datatype election_action =
  NewSessionCreated | MemberWatchOpened | MemberPut string string | ContextCancelled | SessionClosed
  | CampaignStarted | ObserveLeaderStarted | ObserveMembersStarted | LoopsAwaited | ListenersClosed | ListenersAwaited | ClientClosed

definition registerMember ::
  "(MemberNode \<Rightarrow> go_error + string) \<Rightarrow> go_error option \<Rightarrow> LeibrixLeaderElection \<Rightarrow> go_error option \<times> election_action list" where
  "registerMember json_Marshal putErr l =
     (case json_Marshal (le_myNode l) of
        Inl err \<Rightarrow> (Some (''failed to marshal member data: '' @ err), [])
      | Inr memberJSON \<Rightarrow>
          (map_option (\<lambda>err. ''failed to register member: '' @ err) putErr,
           [MemberPut (membersKey @ le_nodeName l) memberJSON]))"

definition Election_Start ::
  "(MemberNode \<Rightarrow> go_error + string) \<Rightarrow> go_error option \<Rightarrow> go_error option \<Rightarrow> LeibrixLeaderElection
   \<Rightarrow> go_error option \<times> election_action list \<times> LeibrixLeaderElection" where
  "Election_Start json_Marshal sessionErr putErr l =
     (case sessionErr of
        Some err \<Rightarrow> (Some err, [], l)
      | None \<Rightarrow>
        (let l' = l\<lparr>le_session := True, le_cancel := True\<rparr>
         in case registerMember json_Marshal putErr l' of
              (Some registerErr, acts) \<Rightarrow>
                (Some registerErr, [NewSessionCreated, MemberWatchOpened] @ acts @ [ContextCancelled, SessionClosed], l')
            | (None, acts) \<Rightarrow>
                (None, [NewSessionCreated, MemberWatchOpened] @ acts
                         @ [CampaignStarted, ObserveLeaderStarted, ObserveMembersStarted], l')))"

text \<open>
  The client is set by \<open>NewLeaderElection\<close>, so it is always closed; an error of closing the session is
  only logged.
\<close>

definition Election_Close ::
  "go_error option \<Rightarrow> LeibrixLeaderElection \<Rightarrow> go_error option \<times> election_action list \<times> LeibrixLeaderElection" where
  "Election_Close clientErr l =
     (clientErr,
      (if le_cancel l then [ContextCancelled, LoopsAwaited] else [])
      @ (if le_session l then [SessionClosed] else [])
      @ [ListenersClosed, ListenersAwaited, ClientClosed],
      closeAllListeners l)"

subsection \<open>The goroutines\<close>

text \<open>
  Where \<open>campaign\<close> and \<open>observeLeader\<close> are.  Setting the role and the leader's name happens under the
  lock, in one step with the broadcast that follows it.
\<close>

datatype campaign_pc =
  CampaignCheck | Campaigning | CampaignSleep | CampaignWon | Leading | Resigning | CampaignReturned

datatype observe_pc = Observing | ObserveReturned

record election_run =
  er_l :: LeibrixLeaderElection
  er_campaign :: campaign_pc
  er_observe :: observe_pc
  er_ctxDone :: bool
  er_expired :: bool

definition election_started :: "LeibrixLeaderElection \<Rightarrow> election_run" where
  "election_started l =
     \<lparr>er_l = l, er_campaign = CampaignCheck, er_observe = Observing, er_ctxDone = False, er_expired = False\<rparr>"

text \<open>
  The answers of etcd are free: a campaign may be won or fail, a response of the observer may name
  any leader or none, the observer's channel may be closed, the session may expire.
\<close>

inductive election_step :: "election_run \<Rightarrow> election_run \<Rightarrow> bool" where
  check_leader: "er_campaign r = CampaignCheck \<Longrightarrow> er_ctxDone r \<Longrightarrow> IsLeader (er_l r) \<Longrightarrow>
    election_step r (r\<lparr>er_campaign := Resigning\<rparr>)"
| check_other: "er_campaign r = CampaignCheck \<Longrightarrow> er_ctxDone r \<Longrightarrow> \<not> IsLeader (er_l r) \<Longrightarrow>
    election_step r (r\<lparr>er_campaign := CampaignReturned\<rparr>)"
| resigned: "er_campaign r = Resigning \<Longrightarrow>
    election_step r (r\<lparr>er_l := loseLeadership sched EvtLeaderResigned (er_l r), er_campaign := CampaignReturned\<rparr>)"
| check_open: "er_campaign r = CampaignCheck \<Longrightarrow> \<not> er_ctxDone r \<Longrightarrow>
    election_step r (r\<lparr>er_campaign := Campaigning\<rparr>)"
| campaign_failed: "er_campaign r = Campaigning \<Longrightarrow> election_step r (r\<lparr>er_campaign := CampaignSleep\<rparr>)"
| slept: "er_campaign r = CampaignSleep \<Longrightarrow> election_step r (r\<lparr>er_campaign := CampaignCheck\<rparr>)"
| campaign_won: "er_campaign r = Campaigning \<Longrightarrow> election_step r (r\<lparr>er_campaign := CampaignWon\<rparr>)"
| became: "er_campaign r = CampaignWon \<Longrightarrow>
    election_step r (r\<lparr>er_l := becomeLeader (er_l r), er_campaign := Leading\<rparr>)"
| expired: "er_campaign r = Leading \<Longrightarrow> er_expired r \<Longrightarrow>
    election_step r (r\<lparr>er_l := loseLeadership sched EvtLeaderExpired (er_l r), er_campaign := CampaignCheck\<rparr>)"
| cancelled: "er_campaign r = Leading \<Longrightarrow> er_ctxDone r \<Longrightarrow> election_step r (r\<lparr>er_campaign := CampaignCheck\<rparr>)"
| observed: "er_observe r = Observing \<Longrightarrow> election_step r (r\<lparr>er_l := observeResponse sched kvs (er_l r)\<rparr>)"
| observe_ends: "er_observe r = Observing \<Longrightarrow> election_step r (r\<lparr>er_observe := ObserveReturned\<rparr>)"
| cancel: "election_step r (r\<lparr>er_ctxDone := True\<rparr>)"
| expire: "election_step r (r\<lparr>er_expired := True\<rparr>)"
| watch: "election_step r (r\<lparr>er_l := snd (Watch (er_l r))\<rparr>)"
| unwatch: "election_step r (r\<lparr>er_l := removeListener i (er_l r)\<rparr>)"
| close_listeners: "election_step r (r\<lparr>er_l := closeAllListeners (er_l r)\<rparr>)"
| member_event: "election_step r (r\<lparr>er_l := broadcastMembershipEvent sched ev (er_l r)\<rparr>)"
| deliver: "election_step r (r\<lparr>er_l := (er_l r)\<lparr>le_sinks := (le_sinks (er_l r))(i := snd (listenerTurn p1 others p2 (le_sinks (er_l r) i)))\<rparr>\<rparr>)"

subsection \<open>Sinks keep the newest leader event\<close>

text \<open>What the listener's goroutine may do to a sink between the statements of the producer.\<close>

definition consumes :: "(sink \<Rightarrow> sink) \<Rightarrow> bool" where
  "consumes i \<longleftrightarrow> (\<forall>s. length (sk_leaderCh (i s)) \<le> length (sk_leaderCh s) \<and> sk_done (i s) = sk_done s)"

lemma consumesD: "consumes i \<Longrightarrow> length (sk_leaderCh (i s)) \<le> length (sk_leaderCh s)"
  "consumes i \<Longrightarrow> sk_done (i s) = sk_done s"
  by (simp_all add: consumes_def)

lemma enqueueLeader_open:
  assumes "\<not> sk_done s" and "length (sk_leaderCh s) \<le> 1" and "consumes i1" and "consumes i2" and "consumes i3"
  shows "fst (enqueueLeader i1 i2 i3 pick ev s) \<and> sk_leaderCh (snd (enqueueLeader i1 i2 i3 pick ev s)) = [ev]
    \<and> \<not> sk_done (snd (enqueueLeader i1 i2 i3 pick ev s))"
proof -
  define s2 where "s2 = i2 (i1 s)"
  define s3 where "s3 = i3 (s2\<lparr>sk_leaderCh := tl (sk_leaderCh s2)\<rparr>)"
  have "length (sk_leaderCh s2) \<le> 1"
    using consumesD(1) [OF assms(3), of s] consumesD(1) [OF assms(4), of "i1 s"] assms(2) by (simp add: s2_def)
  then have "sk_leaderCh s3 = []"
    using consumesD(1) [OF assms(5), of "s2\<lparr>sk_leaderCh := tl (sk_leaderCh s2)\<rparr>"] by (simp add: s3_def)
  moreover have "\<not> sk_done s3"
    using assms(1) by (simp add: s3_def s2_def consumesD(2) [OF assms(3)] consumesD(2) [OF assms(4)] consumesD(2) [OF assms(5)])
  ultimately show ?thesis
    using assms(1) consumesD(2) [OF assms(3), of s] by (simp add: enqueueLeader_def Let_def s3_def s2_def)
qed

text \<open>
  An open sink takes every leader event and then holds that event alone, whatever its listener
  receives meanwhile: a slow listener loses older leader events and never the newest.
\<close>

lemma enqueueLeader_newest:
  assumes "\<not> sk_done s" and "length (sk_leaderCh s) \<le> 1" and "consumes i1" and "consumes i2" and "consumes i3"
  shows "fst (enqueueLeader i1 i2 i3 pick ev s) \<and> sk_leaderCh (snd (enqueueLeader i1 i2 i3 pick ev s)) = [ev]"
  using enqueueLeader_open [OF assms] by blast

definition sample_event :: "string \<Rightarrow> LeaderEvent" where
  "sample_event name = \<lparr>lev_Type = EvtLeaderElected, lev_Member = Some (member_named name), lev_Epoch = 1\<rparr>"

lemma enqueueLeader_newest_witness:
  "fst (enqueueLeader id id id True (sample_event ''b'') (newSink\<lparr>sk_leaderCh := [sample_event ''a'']\<rparr>))
   \<and> sk_leaderCh (snd (enqueueLeader id id id True (sample_event ''b'') (newSink\<lparr>sk_leaderCh := [sample_event ''a'']\<rparr>)))
     = [sample_event ''b'']"
  by (rule enqueueLeader_newest) (simp_all add: newSink_def consumes_def)

text \<open>
  Two producers, \<open>campaign\<close> and \<open>observeLeader\<close>, share a sink: when the other one enqueues after this
  one made room, this event is the one that is lost, although the sink is open.
\<close>

lemma enqueueLeader_race:
  "enqueueLeader id id (\<lambda>s. s\<lparr>sk_leaderCh := sk_leaderCh s @ [other]\<rparr>) pick ev (newSink\<lparr>sk_leaderCh := [old]\<rparr>)
   = (False, newSink\<lparr>sk_leaderCh := [other]\<rparr>)"
  by (simp add: enqueueLeader_def newSink_def)

subsection \<open>The role and the leader's name\<close>

definition role_consistent :: "LeibrixLeaderElection \<Rightarrow> bool" where
  "role_consistent l \<longleftrightarrow> mn_Name (le_myNode l) = le_nodeName l \<and> le_nodeName l \<noteq> '''' \<and>
     (IsLeader l \<longleftrightarrow> LeaderName l = le_nodeName l)"

lemmas role_defs = role_consistent_def IsLeader_def LeaderName_def setRole_def broadcastLeaderEvent_def
  broadcastMembershipEvent_def Let_def

lemma role_consistent_ops:
  assumes "role_consistent l"
  shows "role_consistent (becomeLeader l)" and "role_consistent (loseLeadership sched t l)"
    and "role_consistent (observeResponse sched kvs l)" and "role_consistent (snd (Watch l))"
    and "role_consistent (removeListener i l)" and "role_consistent (closeAllListeners l)"
    and "role_consistent (broadcastMembershipEvent sched ev l)" and "role_consistent (l\<lparr>le_sinks := f\<rparr>)"
  using assms
  by (auto simp: role_defs becomeLeader_def loseLeadership_def observeResponse_def Watch_def removeListener_def
      closeAllListeners_def split: list.splits)

lemma role_consistent_step: "election_step r r' \<Longrightarrow> role_consistent (er_l r) \<Longrightarrow> role_consistent (er_l r')"
  by (induction rule: election_step.induct) (simp_all add: role_consistent_ops)

lemma NewLeaderElection_consistent:
  assumes "NewLeaderElection loggerErr clientv3_New config = Inr (l, cli)" and "nc_NodeName (lc_Node config) \<noteq> ''''"
  shows "role_consistent l"
  using assms by (auto simp: NewLeaderElection_def role_defs split: option.splits sum.splits)

lemma election_reachable_consistent:
  assumes "NewLeaderElection loggerErr clientv3_New config = Inr (l, cli)" and "nc_NodeName (lc_Node config) \<noteq> ''''"
    and "reachable (\<lambda>r. r = election_started l) election_step r"
  shows "role_consistent (er_l r)"
  using assms(3)
  by (rule reachable_invariant)
    (simp_all add: election_started_def NewLeaderElection_consistent [OF assms(1,2)] role_consistent_step)

text \<open>
  In every state the service reaches after \<open>NewLeaderElection\<close> with a node name that is not empty,
  the node takes itself for the leader exactly when the leader it names is itself, whatever etcd
  answers and however campaign, observer, listeners and shutdown interleave.
\<close>

lemma election_role_consistent:
  assumes "NewLeaderElection None clientv3_New config = Inr (l, cli)" and "nc_NodeName (lc_Node config) \<noteq> ''''"
    and "reachable (\<lambda>r. r = election_started l) election_step r"
  shows "IsLeader (er_l r) \<longleftrightarrow> LeaderName (er_l r) = le_nodeName (er_l r)"
  using election_reachable_consistent [OF assms] by (simp add: role_consistent_def)

definition sample_election :: LeibrixLeaderElection where
  "sample_election = (case NewLeaderElection None (\<lambda>c. Inr ()) example_config of Inr (l, cli) \<Rightarrow> l)"

lemma sample_election_new: "NewLeaderElection None (\<lambda>c. Inr ()) example_config = Inr (sample_election, ())"
  by (simp add: sample_election_def NewLeaderElection_def)

definition sample_leading :: election_run where
  "sample_leading = (election_started sample_election)\<lparr>er_l := becomeLeader sample_election, er_campaign := Leading\<rparr>"

lemma sample_leading_reachable: "reachable (\<lambda>r. r = election_started sample_election) election_step sample_leading"
proof -
  let ?R = "reachable (\<lambda>r. r = election_started sample_election) election_step"
  let ?s = "election_started sample_election"
  have 0: "?R ?s" by (rule reachable_init) simp
  have 1: "?R (?s\<lparr>er_campaign := Campaigning\<rparr>)"
    by (rule reachable_step [OF 0], rule check_open) (simp_all add: election_started_def)
  have "?R (?s\<lparr>er_campaign := Campaigning\<rparr>\<lparr>er_campaign := CampaignWon\<rparr>)"
    by (rule reachable_step [OF 1], rule campaign_won) simp
  then have 2: "?R (?s\<lparr>er_campaign := CampaignWon\<rparr>)" by simp
  show ?thesis
    using reachable_step [OF 2 became] by (simp add: sample_leading_def election_started_def)
qed

lemma election_role_consistent_witness:
  "(IsLeader (er_l sample_leading) \<longleftrightarrow> LeaderName (er_l sample_leading) = le_nodeName (er_l sample_leading))
   \<and> IsLeader (er_l sample_leading)"
  using election_role_consistent [OF sample_election_new _ sample_leading_reachable]
  by (simp add: example_config_def sample_leading_def becomeLeader_def setRole_def IsLeader_def)

subsection \<open>Shutdown of the campaign\<close>

fun campaign_rank :: "campaign_pc \<Rightarrow> nat" where
  "campaign_rank CampaignReturned = 0"
| "campaign_rank Resigning = 1"
| "campaign_rank CampaignCheck = 2"
| "campaign_rank Leading = 3"
| "campaign_rank CampaignSleep = 3"
| "campaign_rank CampaignWon = 4"
| "campaign_rank Campaigning = 5"

text \<open>
  Once the context is cancelled it stays cancelled, every step leaves the campaign where it is or brings it
  closer to its return, and until it has returned it has such a step: the goroutine that \<open>Close\<close>
  waits for ends after at most five steps of its own.
\<close>

lemma campaign_ends:
  assumes "er_ctxDone r"
  shows "(\<forall>r'. election_step r r' \<longrightarrow> er_ctxDone r' \<and>
            (er_campaign r' = er_campaign r \<or> campaign_rank (er_campaign r') < campaign_rank (er_campaign r)))
       \<and> (er_campaign r \<noteq> CampaignReturned \<longrightarrow>
            (\<exists>r'. election_step r r' \<and> campaign_rank (er_campaign r') < campaign_rank (er_campaign r)))"
proof (intro conjI impI allI)
  fix r' assume "election_step r r'"
  then show "er_ctxDone r'" using assms by cases auto
next
  fix r' assume "election_step r r'"
  then show "er_campaign r' = er_campaign r \<or> campaign_rank (er_campaign r') < campaign_rank (er_campaign r)"
    using assms by cases auto
next
  assume "er_campaign r \<noteq> CampaignReturned"
  then show "\<exists>r'. election_step r r' \<and> campaign_rank (er_campaign r') < campaign_rank (er_campaign r)"
  proof (cases "er_campaign r")
    case CampaignCheck
    show ?thesis
    proof (cases "IsLeader (er_l r)")
      case True
      show ?thesis using check_leader [OF CampaignCheck assms True] CampaignCheck by (intro exI conjI) auto
    next
      case False
      show ?thesis using check_other [OF CampaignCheck assms False] CampaignCheck by (intro exI conjI) auto
    qed
  next
    case Campaigning
    show ?thesis using campaign_failed [OF Campaigning] Campaigning by (intro exI conjI) auto
  next
    case CampaignSleep
    show ?thesis using slept [OF CampaignSleep] CampaignSleep by (intro exI conjI) auto
  next
    case CampaignWon
    show ?thesis using became [OF CampaignWon] CampaignWon by (intro exI conjI) auto
  next
    case Leading
    show ?thesis using cancelled [OF Leading assms] Leading by (intro exI conjI) auto
  next
    case Resigning
    show ?thesis using resigned [OF Resigning] Resigning by (intro exI conjI) auto
  qed simp
qed

lemma campaign_ends_witness:
  "\<exists>r'. election_step (sample_leading\<lparr>er_ctxDone := True\<rparr>) r' \<and> campaign_rank (er_campaign r') < 3"
  using campaign_ends [of "sample_leading\<lparr>er_ctxDone := True\<rparr>"] by (simp add: sample_leading_def)

subsection \<open>A late response of the observer\<close>

text \<open>
  The observer may handle the response that announces this node's own term after the campaign
  resigned from that term: a node that led, whose context is cancelled, whose campaign resigned and
  whose two goroutines have returned, can be left with the role of leader.
\<close>

lemma leader_after_resignation:
  "\<exists>r. reachable (\<lambda>r. r = sample_leading) election_step r \<and>
       er_ctxDone r \<and> er_campaign r = CampaignReturned \<and> er_observe r = ObserveReturned \<and> IsLeader (er_l r)"
proof -
  let ?R = "reachable (\<lambda>r. r = sample_leading) election_step"
  define kv where "kv = \<lparr>ek_Key = electionKey, ek_Value = ''node1'', ek_CreateRevision = 7\<rparr>"
  define r1 where "r1 = sample_leading\<lparr>er_ctxDone := True\<rparr>"
  define r2 where "r2 = r1\<lparr>er_campaign := CampaignCheck\<rparr>"
  define r3 where "r3 = r2\<lparr>er_campaign := Resigning\<rparr>"
  define r4 where "r4 = r3\<lparr>er_l := loseLeadership undefined EvtLeaderResigned (er_l r3), er_campaign := CampaignReturned\<rparr>"
  define r5 where "r5 = r4\<lparr>er_l := observeResponse undefined [kv] (er_l r4)\<rparr>"
  note r = r5_def r4_def r3_def r2_def r1_def sample_leading_def election_started_def
  have 0: "?R sample_leading" by (rule reachable_init) simp
  have 1: "?R r1" unfolding r1_def by (rule reachable_step [OF 0], rule cancel)
  have 2: "?R r2" unfolding r2_def by (rule reachable_step [OF 1], rule cancelled) (simp_all add: r)
  have 3: "?R r3" unfolding r3_def
    by (rule reachable_step [OF 2], rule check_leader) (simp_all add: r IsLeader_def becomeLeader_def setRole_def)
  have 4: "?R r4" unfolding r4_def by (rule reachable_step [OF 3], rule resigned) (simp add: r)
  have 5: "?R r5" unfolding r5_def by (rule reachable_step [OF 4], rule observed) (simp add: r)
  have "?R (r5\<lparr>er_observe := ObserveReturned\<rparr>)"
    by (rule reachable_step [OF 5], rule observe_ends) (simp add: r)
  moreover have "IsLeader (er_l r5)"
    by (simp add: r kv_def observeResponse_def loseLeadership_def becomeLeader_def Let_def broadcastLeaderEvent_def
        setRole_def IsLeader_def sample_election_def NewLeaderElection_def example_config_def)
  ultimately show ?thesis
    by (intro exI [of _ "r5\<lparr>er_observe := ObserveReturned\<rparr>"]) (simp add: r)
qed

end
