(* ===== verification/Election_Interleaving.thy ===== *)
theory Election_Interleaving
  imports Election Transition_Runs "HOL-Library.Product_Lexorder"
begin

text \<open>
  The goroutines of \<open>internal/cluster/election.go\<close> at the grain of their atomic actions: a critical
  section under the lock, one \<open>select\<close>, one channel operation.  Theory \<open>Election\<close> makes the change of
  a role and the broadcast that follows one step; here the campaign, the observer and the watch of
  the members each broadcast on their own, one sink and one \<open>select\<close> after the other, and the
  listeners' goroutines, the registration and the removal of listeners run in between.

  The step function \<open>net_exec\<close> says what a label does.  Labels carry what is not determined by the
  state: the answers of etcd, the order in which a map of listeners is traversed, and which of the
  ready cases of a \<open>select\<close> is taken.
\<close>

subsection \<open>One select of an enqueue\<close>

datatype enq_pc = EnqCheck | EnqSend | EnqDrop | EnqResend

text \<open>The next \<open>select\<close>, or \<^term>\<open>None\<close> when \<open>enqueueLeader\<close> returns.\<close>

fun enqueueSelect :: "enq_pc \<Rightarrow> bool \<Rightarrow> LeaderEvent \<Rightarrow> sink \<Rightarrow> enq_pc option \<times> sink" where
  "enqueueSelect EnqCheck pick ev s = (if sk_done s then None else Some EnqSend, s)"
| "enqueueSelect EnqSend pick ev s =
     (if length (sk_leaderCh s) < 1 then (None, s\<lparr>sk_leaderCh := sk_leaderCh s @ [ev]\<rparr>) else (Some EnqDrop, s))"
| "enqueueSelect EnqDrop pick ev s = (Some EnqResend, s\<lparr>sk_leaderCh := tl (sk_leaderCh s)\<rparr>)"
| "enqueueSelect EnqResend pick ev s =
     (None, if length (sk_leaderCh s) < 1 \<and> \<not> (sk_done s \<and> pick) then s\<lparr>sk_leaderCh := sk_leaderCh s @ [ev]\<rparr> else s)"

text \<open>The four of them, with what others do in between, are \<open>enqueueLeader\<close>.\<close>

definition enqueueBySelects ::
  "(sink \<Rightarrow> sink) \<Rightarrow> (sink \<Rightarrow> sink) \<Rightarrow> (sink \<Rightarrow> sink) \<Rightarrow> bool \<Rightarrow> LeaderEvent \<Rightarrow> sink \<Rightarrow> sink" where
  "enqueueBySelects i1 i2 i3 pick ev s =
     (case enqueueSelect EnqCheck pick ev s of
        (None, s0) \<Rightarrow> s0
      | (Some _, s0) \<Rightarrow>
        (case enqueueSelect EnqSend pick ev (i1 s0) of
           (None, s1) \<Rightarrow> s1
         | (Some _, s1) \<Rightarrow>
           (case enqueueSelect EnqDrop pick ev (i2 s1) of
              (_, s2) \<Rightarrow> snd (enqueueSelect EnqResend pick ev (i3 s2)))))"

lemma enqueueLeader_by_selects: "snd (enqueueLeader i1 i2 i3 pick ev s) = enqueueBySelects i1 i2 i3 pick ev s"
  by (simp add: enqueueLeader_def enqueueBySelects_def Let_def)

datatype mem_pc = MemCheck | MemSend

fun memberSelect :: "mem_pc \<Rightarrow> bool \<Rightarrow> MembershipEvent \<Rightarrow> sink \<Rightarrow> mem_pc option \<times> sink" where
  "memberSelect MemCheck pick ev s = (if sk_done s then None else Some MemSend, s)"
| "memberSelect MemSend pick ev s =
     (None, if length (sk_memberCh s) < listenerQueueSize \<and> \<not> (sk_done s \<and> pick)
            then s\<lparr>sk_memberCh := sk_memberCh s @ [ev]\<rparr> else s)"

lemma enqueueMembership_by_selects:
  "snd (enqueueMembership i1 pick ev s) =
     (case memberSelect MemCheck pick ev s of (None, s0) \<Rightarrow> s0 | (Some _, s0) \<Rightarrow> snd (memberSelect MemSend pick ev (i1 s0)))"
  by (simp add: enqueueMembership_def Let_def)

subsection \<open>Broadcasts\<close>

text \<open>
  A producer of leader events: nothing to announce, an event whose listeners are not collected
  yet, or the event with the sinks still to be notified and the \<open>select\<close> it is at.
\<close>

datatype producer = Quiet | Announcing LeaderEvent | Delivering LeaderEvent "64 word list" enq_pc

fun collect :: "64 word list \<Rightarrow> 64 word set \<Rightarrow> producer \<Rightarrow> producer option" where
  "collect ids listeners (Announcing ev) = (if distinct ids \<and> set ids = listeners then Some (Delivering ev ids EnqCheck) else None)"
| "collect ids listeners Quiet = None"
| "collect ids listeners (Delivering ev is pc) = None"

fun deliver :: "bool \<Rightarrow> producer \<Rightarrow> (64 word \<Rightarrow> sink) \<Rightarrow> (producer \<times> (64 word \<Rightarrow> sink)) option" where
  "deliver pick (Delivering ev [] pc) sinks = Some (Quiet, sinks)"
| "deliver pick (Delivering ev (i # is) pc) sinks =
     (case enqueueSelect pc pick ev (sinks i) of
        (None, s) \<Rightarrow> Some (Delivering ev is EnqCheck, sinks(i := s))
      | (Some pc', s) \<Rightarrow> Some (Delivering ev (i # is) pc', sinks(i := s)))"
| "deliver pick Quiet sinks = None"
| "deliver pick (Announcing ev) sinks = None"

datatype member_producer = MemberQuiet | MemberDelivering MembershipEvent "64 word list" mem_pc

fun collectMember :: "64 word list \<Rightarrow> 64 word set \<Rightarrow> MembershipEvent \<Rightarrow> member_producer \<Rightarrow> member_producer option" where
  "collectMember ids listeners ev MemberQuiet = (if distinct ids \<and> set ids = listeners then Some (MemberDelivering ev ids MemCheck) else None)"
| "collectMember ids listeners ev (MemberDelivering ev' is pc) = None"

fun deliverMember :: "bool \<Rightarrow> member_producer \<Rightarrow> (64 word \<Rightarrow> sink) \<Rightarrow> (member_producer \<times> (64 word \<Rightarrow> sink)) option" where
  "deliverMember pick (MemberDelivering ev [] pc) sinks = Some (MemberQuiet, sinks)"
| "deliverMember pick (MemberDelivering ev (i # is) pc) sinks =
     (case memberSelect pc pick ev (sinks i) of
        (None, s) \<Rightarrow> Some (MemberDelivering ev is MemCheck, sinks(i := s))
      | (Some pc', s) \<Rightarrow> Some (MemberDelivering ev (i # is) pc', sinks(i := s)))"
| "deliverMember pick MemberQuiet sinks = None"

subsection \<open>The whole election service\<close>

datatype listener_pc = ListenerAbsent | ListenerFirst | ListenerSecond | ListenerReturned

text \<open>
  How far \<open>resign\<close> is: it has not taken the lock, it waits with the lock held for etcd to answer, or it
  has returned.
\<close>

datatype resign_pc = ResignBefore | ResignCalling | ResignAfter

text \<open>
  The fields after \<open>en_expired\<close> are history: what each listener was called with, the events the
  observer has announced and how many of them there were when a listener was registered, and
  whether the campaign ever announced an event.
\<close>

record election_net =
  en_l :: LeibrixLeaderElection
  en_campaign :: campaign_pc
  en_resign :: resign_pc
  en_announce :: producer
  en_observe :: observe_pc
  en_report :: producer
  en_member :: member_producer
  en_listener :: "64 word \<Rightarrow> listener_pc"
  en_closing :: "64 word set"
  en_ctxDone :: bool
  en_expired :: bool
  en_delivered :: "64 word \<Rightarrow> LeaderEvent list"
  en_reported :: "LeaderEvent list"
  en_since :: "64 word \<Rightarrow> nat"
  en_lost :: bool

definition net_started :: "LeibrixLeaderElection \<Rightarrow> election_net" where
  "net_started l =
     \<lparr>en_l = l, en_campaign = CampaignCheck, en_resign = ResignBefore, en_announce = Quiet, en_observe = Observing, en_report = Quiet,
      en_member = MemberQuiet, en_listener = (\<lambda>i. ListenerAbsent), en_closing = {}, en_ctxDone = False, en_expired = False,
      en_delivered = (\<lambda>i. []), en_reported = [], en_since = (\<lambda>i. 0), en_lost = False\<rparr>"

datatype net_label =
  LCheck | LCampaign bool | LSlept | LBecome | LExpired | LCancelled | LResign | LResigned | LResignLost
  | LCollect "64 word list" | LDeliver bool
  | LObserve "etcd_kv list" | LObserveEnd | LReportCollect "64 word list" | LReportDeliver bool
  | LMember MembershipEvent "64 word list" | LMemberDeliver bool
  | LWatch | LUnwatch "64 word" | LCloseAll | LCloseSink "64 word"
  | LListen "64 word" listener_case | LListenDefault "64 word"
  | LCancel | LExpire

definition lose :: "EventType \<Rightarrow> election_net \<Rightarrow> election_net" where
  "lose eventType s = s\<lparr>en_l := setRole Candidate '''' (en_l s), en_lost := True,
     en_announce := Announcing \<lparr>lev_Type = eventType, lev_Member = Some (member_named (le_nodeName (en_l s))), lev_Epoch = 0\<rparr>\<rparr>"

definition elected_event :: "etcd_kv \<Rightarrow> LeaderEvent" where
  "elected_event kv =
     \<lparr>lev_Type = EvtLeaderElected, lev_Member = Some (member_named (ek_Value kv)), lev_Epoch = word_of_int (ek_CreateRevision kv)\<rparr>"

text \<open>What a listener's goroutine does with the case it takes.\<close>

definition listen :: "64 word \<Rightarrow> listener_case \<Rightarrow> election_net \<Rightarrow> election_net" where
  "listen i c s =
     (case listener_take (le_sinks (en_l s) i) c of
        (d, sk) \<Rightarrow>
          s\<lparr>en_l := (en_l s)\<lparr>le_sinks := (le_sinks (en_l s))(i := sk)\<rparr>,
            en_listener := (en_listener s)(i := (if d = ListenerStops then ListenerReturned else ListenerFirst)),
            en_delivered := (case d of DeliverLeader ev \<Rightarrow> (en_delivered s)(i := en_delivered s i @ [ev]) | _ \<Rightarrow> en_delivered s)\<rparr>)"

text \<open>
  The lock is held for longer than a step only by \<open>resign\<close>.  Meanwhile the steps of the other goroutines
  that take it cannot happen.
\<close>

abbreviation locked :: "election_net \<Rightarrow> bool" where
  "locked s \<equiv> en_resign s = ResignCalling"

text \<open>
  The steps.  A goroutine that is broadcasting does nothing else until it is done.  The label
  \<open>LResigned\<close> is the answer of etcd to a resignation, which no deadline bounds.  A listener's goroutine
  is started in the step that registers it: until it has run, nothing tells a goroutine that has
  been started from one that has not.  The counter of listener ids is taken not to wrap around.
\<close>

fun net_exec :: "net_label \<Rightarrow> election_net \<Rightarrow> election_net option" where
  "net_exec LCheck s =
     (if en_campaign s = CampaignCheck \<and> en_announce s = Quiet
      then Some (s\<lparr>en_campaign :=
             (if en_ctxDone s then (if IsLeader (en_l s) then Resigning else CampaignReturned) else Campaigning)\<rparr>)
      else None)"
| "net_exec (LCampaign won) s =
     (if en_campaign s = Campaigning then Some (s\<lparr>en_campaign := (if won then CampaignWon else CampaignSleep)\<rparr>) else None)"
| "net_exec LSlept s = (if en_campaign s = CampaignSleep then Some (s\<lparr>en_campaign := CampaignCheck\<rparr>) else None)"
| "net_exec LBecome s =
     (if en_campaign s = CampaignWon then Some (s\<lparr>en_l := becomeLeader (en_l s), en_campaign := Leading\<rparr>) else None)"
| "net_exec LExpired s =
     (if en_campaign s = Leading \<and> en_expired s then Some ((lose EvtLeaderExpired s)\<lparr>en_campaign := CampaignCheck\<rparr>) else None)"
| "net_exec LCancelled s =
     (if en_campaign s = Leading \<and> en_ctxDone s then Some (s\<lparr>en_campaign := CampaignCheck\<rparr>) else None)"
| "net_exec LResign s =
     (if en_campaign s = Resigning \<and> en_resign s = ResignBefore
      then Some (s\<lparr>en_resign := (if IsLeader (en_l s) then ResignCalling else ResignAfter)\<rparr>) else None)"
| "net_exec LResigned s = (if en_resign s = ResignCalling then Some (s\<lparr>en_resign := ResignAfter\<rparr>) else None)"
| "net_exec LResignLost s =
     (if en_campaign s = Resigning \<and> en_resign s = ResignAfter
      then Some ((lose EvtLeaderResigned s)\<lparr>en_campaign := CampaignReturned\<rparr>) else None)"
| "net_exec (LCollect ids) s =
     map_option (\<lambda>p. s\<lparr>en_announce := p\<rparr>) (collect ids (le_listeners (en_l s)) (en_announce s))"
| "net_exec (LDeliver pick) s =
     map_option (\<lambda>(p, sinks). s\<lparr>en_announce := p, en_l := (en_l s)\<lparr>le_sinks := sinks\<rparr>\<rparr>)
       (deliver pick (en_announce s) (le_sinks (en_l s)))"
| "net_exec (LObserve kvs) s =
     (if en_observe s = Observing \<and> en_report s = Quiet \<and> (kvs = [] \<or> \<not> locked s)
      then Some (case kvs of
                   [] \<Rightarrow> s
                 | kv # _ \<Rightarrow>
                     s\<lparr>en_l := setRole (if ek_Value kv = le_nodeName (en_l s) then Leader else Follower) (ek_Value kv) (en_l s),
                       en_report := Announcing (elected_event kv), en_reported := en_reported s @ [elected_event kv]\<rparr>)
      else None)"
| "net_exec LObserveEnd s =
     (if en_observe s = Observing \<and> en_report s = Quiet then Some (s\<lparr>en_observe := ObserveReturned\<rparr>) else None)"
| "net_exec (LReportCollect ids) s =
     (if locked s then None
      else map_option (\<lambda>p. s\<lparr>en_report := p\<rparr>) (collect ids (le_listeners (en_l s)) (en_report s)))"
| "net_exec (LReportDeliver pick) s =
     map_option (\<lambda>(p, sinks). s\<lparr>en_report := p, en_l := (en_l s)\<lparr>le_sinks := sinks\<rparr>\<rparr>)
       (deliver pick (en_report s) (le_sinks (en_l s)))"
| "net_exec (LMember ev ids) s =
     (if locked s then None
      else map_option (\<lambda>p. s\<lparr>en_member := p\<rparr>) (collectMember ids (le_listeners (en_l s)) ev (en_member s)))"
| "net_exec (LMemberDeliver pick) s =
     map_option (\<lambda>(p, sinks). s\<lparr>en_member := p, en_l := (en_l s)\<lparr>le_sinks := sinks\<rparr>\<rparr>)
       (deliverMember pick (en_member s) (le_sinks (en_l s)))"
| "net_exec LWatch s =
     (if le_nextListenerID (en_l s) < - 1 \<and> \<not> locked s
      then (case Watch (en_l s) of
              (i, l) \<Rightarrow> Some (s\<lparr>en_l := l, en_listener := (en_listener s)(i := ListenerFirst),
                               en_delivered := (en_delivered s)(i := []), en_since := (en_since s)(i := length (en_reported s))\<rparr>))
      else None)"
| "net_exec (LUnwatch i) s =
     (if locked s then None
      else if i \<in> le_listeners (en_l s)
      then Some (s\<lparr>en_l := (en_l s)\<lparr>le_listeners := le_listeners (en_l s) - {i}\<rparr>, en_closing := insert i (en_closing s)\<rparr>)
      else Some s)"
| "net_exec LCloseAll s =
     (if locked s then None
      else Some (s\<lparr>en_l := (en_l s)\<lparr>le_listeners := {}\<rparr>, en_closing := en_closing s \<union> le_listeners (en_l s)\<rparr>))"
| "net_exec (LCloseSink i) s =
     (if i \<in> en_closing s
      then Some (s\<lparr>en_l := (en_l s)\<lparr>le_sinks := (le_sinks (en_l s))(i := sink_close (le_sinks (en_l s) i))\<rparr>,
                   en_closing := en_closing s - {i}\<rparr>)
      else None)"
| "net_exec (LListen i c) s =
     (if listener_ready (le_sinks (en_l s) i) c
         \<and> (en_listener s i = ListenerFirst \<and> c \<noteq> CaseMember \<or> en_listener s i = ListenerSecond)
      then Some (listen i c s) else None)"
| "net_exec (LListenDefault i) s =
     (if en_listener s i = ListenerFirst \<and> \<not> listener_ready (le_sinks (en_l s) i) CaseDone
         \<and> \<not> listener_ready (le_sinks (en_l s) i) CaseLeader
      then Some (s\<lparr>en_listener := (en_listener s)(i := ListenerSecond)\<rparr>) else None)"
| "net_exec LCancel s = Some (s\<lparr>en_ctxDone := True\<rparr>)"
| "net_exec LExpire s = Some (s\<lparr>en_expired := True\<rparr>)"

abbreviation net_reachable :: "LeibrixLeaderElection \<Rightarrow> election_net \<Rightarrow> bool" where
  "net_reachable l \<equiv> reachable (\<lambda>s. s = net_started l) (lstep net_exec)"

end
