(* ===== verification/Election_Delivery.thy ===== *)
theory Election_Delivery
  imports Election_Interleaving
begin

text \<open>
  What holds in every interleaving of the election's goroutines: the states are well formed, the
  roles are those of the coarser machine of theory \<open>Election\<close>, a listener's newest event is not
  lost as long as the observer is the only producer, and the campaign returns after a shutdown.
\<close>

subsection \<open>Well-formed states\<close>

definition sink_ok :: "sink \<Rightarrow> bool" where
  "sink_ok s \<longleftrightarrow> length (sk_leaderCh s) \<le> 1 \<and> length (sk_memberCh s) \<le> listenerQueueSize"

text \<open>
  Channels within their capacities; a registered listener has an open sink and a running goroutine;
  a listener that is being removed is not registered; ids in use do not exceed the counter.
\<close>

definition net_wf :: "election_net \<Rightarrow> bool" where
  "net_wf s \<longleftrightarrow> (\<forall>i. sink_ok (le_sinks (en_l s) i))
     \<and> (\<forall>i \<in> le_listeners (en_l s). \<not> sk_done (le_sinks (en_l s) i) \<and> i \<notin> en_closing s
          \<and> en_listener s i \<in> {ListenerFirst, ListenerSecond} \<and> i \<le> le_nextListenerID (en_l s))
     \<and> (\<forall>i \<in> en_closing s. i \<le> le_nextListenerID (en_l s))"

lemma word_less_Suc: "(x :: 64 word) < - 1 \<Longrightarrow> x < x + 1"
proof -
  assume "x < - 1"
  then have "1 + x \<noteq> 0" by (metis add.commute add_eq_0_iff2 less_irrefl)
  then have "unat (1 + x) = Suc (unat x)" by (rule unatSuc)
  then show ?thesis by (simp add: word_less_nat_alt add.commute)
qed

lemma zero_less_max [simp]: "(0 :: 64 word) < - 1"
  by (simp add: word_gt_0)

text \<open>What a producer's step and a listener's step do to the sinks.\<close>

lemma enqueueSelect_sink:
  assumes "enqueueSelect pc pick ev s = (r, s')"
  shows "sk_done s' = sk_done s \<and> sk_memberCh s' = sk_memberCh s \<and> (sink_ok s \<longrightarrow> sink_ok s')"
  using assms by (cases pc) (auto simp: sink_ok_def split: if_splits)

lemma memberSelect_sink:
  assumes "memberSelect pc pick ev s = (r, s')"
  shows "sk_done s' = sk_done s \<and> sk_leaderCh s' = sk_leaderCh s \<and> (sink_ok s \<longrightarrow> sink_ok s')"
  using assms by (cases pc) (auto simp: sink_ok_def split: if_splits)

lemma deliver_cases:
  assumes "deliver pick p sinks = Some (p', sinks')"
  obtains (finished) ev pc where "p = Delivering ev [] pc" "p' = Quiet" "sinks' = sinks"
    | (select) ev i "is" pc r s where "p = Delivering ev (i # is) pc" "enqueueSelect pc pick ev (sinks i) = (r, s)"
        "sinks' = sinks(i := s)"
        "p' = (case r of None \<Rightarrow> Delivering ev is EnqCheck | Some pc' \<Rightarrow> Delivering ev (i # is) pc')"
proof (cases "(pick, p, sinks)" rule: deliver.cases)
  case (1 pick ev pc sinks)
  then show ?thesis using assms by (intro finished [of ev pc]) simp_all
next
  case (2 pick' ev i "is" pc sinks')
  obtain r s where e: "enqueueSelect pc pick ev (sinks i) = (r, s)" by fastforce
  show ?thesis by (rule select [OF _ e]) (use assms 2 e in \<open>auto split: option.splits\<close>)
qed (use assms in simp_all)

lemma deliverMember_cases:
  assumes "deliverMember pick p sinks = Some (p', sinks')"
  obtains (finished) "sinks' = sinks" | (select) i ev pc r s where "memberSelect pc pick ev (sinks i) = (r, s)" "sinks' = sinks(i := s)"
proof (cases "(pick, p, sinks)" rule: deliverMember.cases)
  case (1 pick' ev pc sinks0)
  show ?thesis by (rule finished) (use assms 1 in simp)
next
  case (2 pick' ev i "is" pc sinks')
  obtain r s where e: "memberSelect pc pick ev (sinks i) = (r, s)" by fastforce
  show ?thesis by (rule select [OF e]) (use assms 2 e in \<open>auto split: option.splits\<close>)
qed (use assms in simp_all)

lemma deliver_sinks:
  assumes "deliver pick p sinks = Some (p', sinks')"
  shows "sk_done (sinks' i) = sk_done (sinks i) \<and> (sink_ok (sinks i) \<longrightarrow> sink_ok (sinks' i))"
  using assms by (cases rule: deliver_cases) (auto dest!: enqueueSelect_sink)

lemma deliverMember_sinks:
  assumes "deliverMember pick p sinks = Some (p', sinks')"
  shows "sk_done (sinks' i) = sk_done (sinks i) \<and> sk_leaderCh (sinks' i) = sk_leaderCh (sinks i)
    \<and> (sink_ok (sinks i) \<longrightarrow> sink_ok (sinks' i))"
  using assms by (cases rule: deliverMember_cases) (auto dest!: memberSelect_sink)

lemma listener_take_sink:
  assumes "listener_take s c = (d, s')"
  shows "sk_done s' = sk_done s \<and> (sink_ok s \<longrightarrow> sink_ok s') \<and> (d = ListenerStops \<longleftrightarrow> c = CaseDone)"
  using assms by (cases c) (auto simp: sink_ok_def)

lemma net_wf_sinks:
  assumes "net_wf s" and "\<And>i. sk_done (sinks i) = sk_done (le_sinks (en_l s) i)"
    and "\<And>i. sink_ok (le_sinks (en_l s) i) \<Longrightarrow> sink_ok (sinks i)"
    and "en_l s' = (en_l s)\<lparr>le_sinks := sinks\<rparr>" and "en_closing s' = en_closing s" and "en_listener s' = en_listener s"
  shows "net_wf s'"
  using assms unfolding net_wf_def by simp

text \<open>Most steps change none of the fields that matter.\<close>

definition net_shape :: "election_net \<Rightarrow> _" where
  "net_shape s = (le_sinks (en_l s), le_listeners (en_l s), le_nextListenerID (en_l s), en_closing s, en_listener s)"

lemma net_wf_shape: "net_wf s \<Longrightarrow> net_shape s' = net_shape s \<Longrightarrow> net_wf s'"
  by (simp add: net_wf_def net_shape_def)

lemma setRole_shape [simp]:
  "le_sinks (setRole r n l) = le_sinks l" "le_listeners (setRole r n l) = le_listeners l"
  "le_nextListenerID (setRole r n l) = le_nextListenerID l" "le_config (setRole r n l) = le_config l"
  by (simp_all add: setRole_def)

lemma becomeLeader_shape [simp]:
  "le_sinks (becomeLeader l) = le_sinks l" "le_listeners (becomeLeader l) = le_listeners l"
  "le_nextListenerID (becomeLeader l) = le_nextListenerID l" "le_config (becomeLeader l) = le_config l"
  by (simp_all add: becomeLeader_def)

fun touches_sinks :: "net_label \<Rightarrow> bool" where
  "touches_sinks (LDeliver p) = True"
| "touches_sinks (LReportDeliver p) = True"
| "touches_sinks (LMemberDeliver p) = True"
| "touches_sinks LWatch = True"
| "touches_sinks (LUnwatch i) = True"
| "touches_sinks LCloseAll = True"
| "touches_sinks (LCloseSink i) = True"
| "touches_sinks (LListen i c) = True"
| "touches_sinks (LListenDefault i) = True"
| "touches_sinks l = False"

lemma net_shape_step: "net_exec l s = Some s' \<Longrightarrow> \<not> touches_sinks l \<Longrightarrow> net_shape s' = net_shape s"
  by (cases l) (auto simp: net_shape_def lose_def split: if_splits list.splits)

lemma net_wf_watch:
  assumes "net_wf s" and "le_nextListenerID (en_l s) < - 1" and "Watch (en_l s) = (i, l)"
    and "en_l s' = l" and "en_listener s' = (en_listener s)(i := ListenerFirst)" and "en_closing s' = en_closing s"
  shows "net_wf s'"
proof -
  let ?n = "le_nextListenerID (en_l s)"
  have less: "?n < ?n + 1" by (rule word_less_Suc [OF assms(2)])
  have l: "i = ?n + 1" "le_sinks l = (le_sinks (en_l s))(i := newSink)" "le_listeners l = insert i (le_listeners (en_l s))"
      "le_nextListenerID l = i"
    using assms(3) by (auto simp: Watch_def Let_def)
  have old: "j \<noteq> i \<and> j \<le> i" if "j \<le> ?n" for j using that less l(1) by auto
  have "sink_ok newSink" "\<not> sk_done newSink" by (simp_all add: newSink_def sink_ok_def)
  moreover have "i \<notin> en_closing s" using assms(1) old unfolding net_wf_def by blast
  ultimately show ?thesis
    using assms(1) old unfolding net_wf_def assms(4-6) l(2-4) by auto
qed

lemma net_wf_listen:
  assumes "net_wf s" and "listener_ready (le_sinks (en_l s) i) c"
  shows "net_wf (listen i c s)"
proof -
  obtain d sk where taken: "listener_take (le_sinks (en_l s) i) c = (d, sk)" by fastforce
  note facts = listener_take_sink [OF taken]
  have listen: "en_l (listen i c s) = (en_l s)\<lparr>le_sinks := (le_sinks (en_l s))(i := sk)\<rparr>"
      "en_closing (listen i c s) = en_closing s"
      "en_listener (listen i c s) = (en_listener s)(i := (if d = ListenerStops then ListenerReturned else ListenerFirst))"
    by (simp_all add: listen_def taken)
  have "d \<noteq> ListenerStops" if "i \<in> le_listeners (en_l s)"
    using that assms facts unfolding net_wf_def by (cases c) auto
  then show ?thesis
    using assms(1) facts unfolding net_wf_def listen by auto
qed

lemma net_wf_step:
  assumes "net_exec l s = Some s'" and "net_wf s"
  shows "net_wf s'"
proof (cases "touches_sinks l")
  case False
  with assms show ?thesis by (blast intro: net_wf_shape net_shape_step)
next
  case True
  then show ?thesis
  proof (cases l)
    case (LDeliver pick)
    with assms obtain p sinks where "deliver pick (en_announce s) (le_sinks (en_l s)) = Some (p, sinks)"
      "s' = s\<lparr>en_announce := p, en_l := (en_l s)\<lparr>le_sinks := sinks\<rparr>\<rparr>" by auto
    then show ?thesis using deliver_sinks by (intro net_wf_sinks [OF assms(2), of sinks]) auto
  next
    case (LReportDeliver pick)
    with assms obtain p sinks where "deliver pick (en_report s) (le_sinks (en_l s)) = Some (p, sinks)"
      "s' = s\<lparr>en_report := p, en_l := (en_l s)\<lparr>le_sinks := sinks\<rparr>\<rparr>" by auto
    then show ?thesis using deliver_sinks by (intro net_wf_sinks [OF assms(2), of sinks]) auto
  next
    case (LMemberDeliver pick)
    with assms obtain p sinks where "deliverMember pick (en_member s) (le_sinks (en_l s)) = Some (p, sinks)"
      "s' = s\<lparr>en_member := p, en_l := (en_l s)\<lparr>le_sinks := sinks\<rparr>\<rparr>" by auto
    then show ?thesis using deliverMember_sinks by (intro net_wf_sinks [OF assms(2), of sinks]) auto
  next
    case LWatch
    obtain i l' where w: "Watch (en_l s) = (i, l')" by fastforce
    with assms(1) LWatch have "le_nextListenerID (en_l s) < - 1" "en_l s' = l'"
      "en_listener s' = (en_listener s)(i := ListenerFirst)" "en_closing s' = en_closing s"
      by (auto split: if_splits)
    then show ?thesis using net_wf_watch [OF assms(2) _ w] by blast
  next
    case (LListen i c)
    with assms show ?thesis by (auto simp: net_wf_listen split: if_splits)
  next
    case (LCloseSink i)
    with assms show ?thesis by (auto simp: net_wf_def sink_close_def sink_ok_def split: if_splits)
  next
    case (LUnwatch i)
    with assms show ?thesis by (auto simp: net_wf_def split: if_splits)
  next
    case LCloseAll
    with assms show ?thesis by (auto simp: net_wf_def split: if_splits)
  next
    case (LListenDefault i)
    with assms show ?thesis by (auto simp: net_wf_def split: if_splits)
  qed simp_all
qed

lemma net_wf_reachable:
  assumes "net_reachable l s" and "net_wf (net_started l)"
  shows "net_wf s"
  using assms(1) by (rule reachable_invariant) (use assms(2) net_wf_step in \<open>auto simp: lstep_def\<close>)

lemma net_wf_new:
  assumes "NewLeaderElection loggerErr clientv3_New config = Inr (l, cli)"
  shows "net_wf (net_started l)"
  using assms
  by (auto simp: NewLeaderElection_def net_wf_def net_started_def newSink_def sink_ok_def split: option.splits sum.splits)

text \<open>
  C37: the shape of the service in every interleaving.  The channels never hold more than their
  capacities, one leader event and sixteen membership events; every registered listener has an open
  sink and a running goroutine, and a listener that is being removed is no longer registered.
\<close>

theorem election_net_well_formed:
  assumes "NewLeaderElection loggerErr clientv3_New config = Inr (l, cli)" and "net_reachable l s"
  shows "(\<forall>i. length (sk_leaderCh (le_sinks (en_l s) i)) \<le> 1 \<and> length (sk_memberCh (le_sinks (en_l s) i)) \<le> listenerQueueSize)
    \<and> (\<forall>i \<in> le_listeners (en_l s). \<not> sk_done (le_sinks (en_l s) i) \<and> en_listener s i \<in> {ListenerFirst, ListenerSecond}
         \<and> i \<notin> en_closing s)"
  using net_wf_reachable [OF assms(2) net_wf_new [OF assms(1)]] by (simp add: net_wf_def sink_ok_def)

text \<open>A service with one listener that has learned of a leader.\<close>

definition node2_leads :: etcd_kv where
  "node2_leads = \<lparr>ek_Key = electionKey, ek_Value = ''node2'', ek_CreateRevision = 7\<rparr>"

definition notified_labels :: "net_label list" where
  "notified_labels = [LWatch, LObserve [node2_leads], LReportCollect [1], LReportDeliver False, LReportDeliver False, LReportDeliver False]"

definition notified :: election_net where
  "notified = the (exec_labels net_exec notified_labels (net_started sample_election))"

lemma notified_exec: "exec_labels net_exec notified_labels (net_started sample_election) = Some notified"
  by (simp add: notified_def notified_labels_def net_started_def sample_election_def NewLeaderElection_def Watch_def newSink_def
      setRole_def)

lemma notified_simps:
  "sk_leaderCh (le_sinks (en_l notified) 1) = [elected_event node2_leads]" "1 \<in> le_listeners (en_l notified)"
  "en_report notified = Quiet" "en_lost notified = False" "en_since notified 1 = 0" "en_delivered notified 1 = []"
  "en_reported notified = [elected_event node2_leads]"
  by (simp_all add: notified_def notified_labels_def net_started_def sample_election_def NewLeaderElection_def Watch_def newSink_def
      setRole_def)

lemma notified_reachable: "net_reachable sample_election notified"
  by (rule exec_labels_from_init [OF notified_exec])

theorem election_net_well_formed_witness:
  "length (sk_leaderCh (le_sinks (en_l notified) 1)) = 1 \<and> \<not> sk_done (le_sinks (en_l notified) 1)
   \<and> en_listener notified 1 \<in> {ListenerFirst, ListenerSecond}"
  using election_net_well_formed [OF sample_election_new notified_reachable] notified_simps by auto

subsection \<open>The roles are those of the coarse machine\<close>

definition net_role :: "election_net \<Rightarrow> _" where
  "net_role s = (en_campaign s, en_observe s, en_ctxDone s, en_expired s,
     le_config (en_l s), le_myNode (en_l s), le_currentLeader (en_l s))"

definition run_role :: "election_run \<Rightarrow> _" where
  "run_role r = (er_campaign r, er_observe r, er_ctxDone r, er_expired r,
     le_config (er_l r), le_myNode (er_l r), le_currentLeader (er_l r))"

definition net_match :: "election_net \<Rightarrow> election_run \<Rightarrow> bool" where
  "net_match s r \<longleftrightarrow> run_role r = net_role s"

lemma listen_frame [simp]:
  "en_campaign (listen i c s) = en_campaign s" "en_announce (listen i c s) = en_announce s"
  "en_observe (listen i c s) = en_observe s" "en_report (listen i c s) = en_report s"
  "en_ctxDone (listen i c s) = en_ctxDone s" "en_expired (listen i c s) = en_expired s"
  "en_lost (listen i c s) = en_lost s" "en_since (listen i c s) = en_since s" "en_reported (listen i c s) = en_reported s"
  "le_config (en_l (listen i c s)) = le_config (en_l s)" "le_myNode (en_l (listen i c s)) = le_myNode (en_l s)"
  "le_currentLeader (en_l (listen i c s)) = le_currentLeader (en_l s)"
  "le_listeners (en_l (listen i c s)) = le_listeners (en_l s)"
  by (simp_all add: listen_def split: prod.splits)

lemma broadcast_role [simp]:
  "le_config (broadcastLeaderEvent sched ev l) = le_config l" "le_myNode (broadcastLeaderEvent sched ev l) = le_myNode l"
  "le_currentLeader (broadcastLeaderEvent sched ev l) = le_currentLeader l"
  by (simp_all add: broadcastLeaderEvent_def)

fun changes_role :: "net_label \<Rightarrow> bool" where
  "changes_role LResign = False"
| "changes_role LResigned = False"
| "changes_role (LCollect ids) = False"
| "changes_role (LDeliver p) = False"
| "changes_role (LReportCollect ids) = False"
| "changes_role (LReportDeliver p) = False"
| "changes_role (LMember ev ids) = False"
| "changes_role (LMemberDeliver p) = False"
| "changes_role LWatch = False"
| "changes_role (LUnwatch i) = False"
| "changes_role LCloseAll = False"
| "changes_role (LCloseSink i) = False"
| "changes_role (LListen i c) = False"
| "changes_role (LListenDefault i) = False"
| "changes_role l = True"

lemma net_role_step:
  assumes "net_exec l s = Some s'" and "\<not> changes_role l"
  shows "net_role s' = net_role s"
  using assms by (cases l) (auto simp: net_role_def Watch_def Let_def split: if_splits)

text \<open>Every step that changes a role or moves a goroutine is a step of the coarse machine.\<close>

lemmas role_tuples = run_role_def net_role_def IsLeader_def

lemma net_match_eqs:
  assumes "net_match s r"
  shows "er_campaign r = en_campaign s" "er_observe r = en_observe s" "er_ctxDone r = en_ctxDone s" "er_expired r = en_expired s"
    "le_config (er_l r) = le_config (en_l s)" "le_myNode (er_l r) = le_myNode (en_l s)"
    "le_currentLeader (er_l r) = le_currentLeader (en_l s)"
  using assms by (simp_all add: net_match_def net_role_def run_role_def)

lemma net_matchI: "election_step r r' \<Longrightarrow> run_role r' = net_role s' \<Longrightarrow> \<exists>r'. election_step r r' \<and> net_match s' r'"
  by (auto simp: net_match_def)

lemma net_simulated_check:
  assumes "net_exec LCheck s = Some s'" and "net_match s r"
  shows "\<exists>r'. election_step r r' \<and> net_match s' r'"
proof -
  note eqs = net_match_eqs [OF assms(2)]
  have check: "en_campaign s = CampaignCheck"
      "s' = s\<lparr>en_campaign := (if en_ctxDone s then (if IsLeader (en_l s) then Resigning else CampaignReturned) else Campaigning)\<rparr>"
    using assms(1) by (auto split: if_splits)
  consider "en_ctxDone s" "IsLeader (en_l s)" | "en_ctxDone s" "\<not> IsLeader (en_l s)" | "\<not> en_ctxDone s" by blast
  then show ?thesis
  proof cases
    case 1
    show ?thesis by (rule net_matchI [OF check_leader]) (use 1 check in \<open>simp_all add: eqs role_tuples\<close>)
  next
    case 2
    show ?thesis by (rule net_matchI [OF check_other]) (use 2 check in \<open>simp_all add: eqs role_tuples\<close>)
  next
    case 3
    show ?thesis by (rule net_matchI [OF check_open]) (use 3 check in \<open>simp_all add: eqs role_tuples\<close>)
  qed
qed

lemma net_simulated_campaign:
  assumes "net_exec (LCampaign won) s = Some s'" and "net_match s r"
  shows "\<exists>r'. election_step r r' \<and> net_match s' r'"
proof -
  note eqs = net_match_eqs [OF assms(2)]
  have step: "en_campaign s = Campaigning" "s' = s\<lparr>en_campaign := (if won then CampaignWon else CampaignSleep)\<rparr>"
    using assms(1) by (auto split: if_splits)
  show ?thesis
  proof (cases won)
    case True
    show ?thesis by (rule net_matchI [OF campaign_won]) (use True step in \<open>simp_all add: eqs role_tuples\<close>)
  next
    case False
    show ?thesis by (rule net_matchI [OF campaign_failed]) (use False step in \<open>simp_all add: eqs role_tuples\<close>)
  qed
qed

lemma net_simulated:
  assumes "net_exec l s = Some s'" and "changes_role l" and "net_match s r"
  shows "\<exists>r'. election_step r r' \<and> net_match s' r'"
proof -
  note eqs = net_match_eqs [OF assms(3)]
  show ?thesis
  proof (cases l)
    case LCheck
    then show ?thesis using net_simulated_check assms by blast
  next
    case (LCampaign won)
    then show ?thesis using net_simulated_campaign assms by blast
  next
    case LSlept
    then have "en_campaign s = CampaignSleep" "s' = s\<lparr>en_campaign := CampaignCheck\<rparr>" using assms(1) by (auto split: if_splits)
    then show ?thesis by (intro net_matchI [OF slept]) (simp_all add: eqs role_tuples)
  next
    case LBecome
    then have "en_campaign s = CampaignWon" "s' = s\<lparr>en_l := becomeLeader (en_l s), en_campaign := Leading\<rparr>"
      using assms(1) by (auto split: if_splits)
    then show ?thesis by (intro net_matchI [OF became]) (simp_all add: eqs role_tuples becomeLeader_def setRole_def)
  next
    case LExpired
    then have "en_campaign s = Leading" "en_expired s" "s' = (lose EvtLeaderExpired s)\<lparr>en_campaign := CampaignCheck\<rparr>"
      using assms(1) by (auto split: if_splits)
    then show ?thesis by (intro net_matchI [OF expired]) (simp_all add: eqs role_tuples lose_def loseLeadership_def setRole_def)
  next
    case LCancelled
    then have "en_campaign s = Leading" "en_ctxDone s" "s' = s\<lparr>en_campaign := CampaignCheck\<rparr>"
      using assms(1) by (auto split: if_splits)
    then show ?thesis by (intro net_matchI [OF cancelled]) (simp_all add: eqs role_tuples)
  next
    case LResignLost
    then have "en_campaign s = Resigning" "s' = (lose EvtLeaderResigned s)\<lparr>en_campaign := CampaignReturned\<rparr>"
      using assms(1) by (auto split: if_splits)
    then show ?thesis by (intro net_matchI [OF resigned]) (simp_all add: eqs role_tuples lose_def loseLeadership_def setRole_def)
  next
    case (LObserve kvs)
    then have obs: "en_observe s = Observing" and s': "s' = (case kvs of
                   [] \<Rightarrow> s
                 | kv # _ \<Rightarrow>
                     s\<lparr>en_l := setRole (if ek_Value kv = le_nodeName (en_l s) then Leader else Follower) (ek_Value kv) (en_l s),
                       en_report := Announcing (elected_event kv), en_reported := en_reported s @ [elected_event kv]\<rparr>)"
      using assms(1) by (auto split: if_splits)
    show ?thesis
      by (rule net_matchI [OF observed [where kvs = kvs]])
        (use obs s' in \<open>simp_all add: eqs role_tuples observeResponse_def Let_def setRole_def split: list.splits\<close>)
  next
    case LObserveEnd
    then have "en_observe s = Observing" "s' = s\<lparr>en_observe := ObserveReturned\<rparr>" using assms(1) by (auto split: if_splits)
    then show ?thesis by (intro net_matchI [OF observe_ends]) (simp_all add: eqs role_tuples)
  next
    case LCancel
    then show ?thesis using assms(1) by (intro net_matchI [OF election_step.cancel]) (auto simp: eqs role_tuples)
  next
    case LExpire
    then show ?thesis using assms(1) by (intro net_matchI [OF expire]) (auto simp: eqs role_tuples)
  qed (use assms(2) in simp_all)
qed

lemma net_refines_election:
  assumes "net_reachable l s"
  shows "\<exists>r. reachable (\<lambda>r. r = election_started l) election_step r \<and> net_match s r"
  using assms
proof (rule reachable_simulation)
  fix s assume "s = net_started l"
  then have "net_match s (election_started l)"
    by (simp add: net_started_def election_started_def net_match_def net_role_def run_role_def)
  then show "\<exists>r. r = election_started l \<and> net_match s r" by blast
next
  fix s s' r assume match: "net_match s r" and "lstep net_exec s s'"
  then obtain lab where step: "net_exec lab s = Some s'" by (auto simp: lstep_def)
  show "net_match s' r \<or> (\<exists>r'. election_step r r' \<and> net_match s' r')"
  proof (cases "changes_role lab")
    case True
    then show ?thesis using net_simulated [OF step _ match] by blast
  next
    case False
    then show ?thesis using net_role_step [OF step False] match by (simp add: net_match_def)
  qed
qed

text \<open>
  C8: the interleaved goroutines implement the coarse machine.  Every reachable state has the
  program counters, the role and the leader's name of a reachable state of the coarse machine; so,
  for a node name that is not empty, the node takes itself for the leader exactly when the leader
  it names is itself, in every interleaving.
\<close>

theorem election_interleaving_refines:
  assumes "NewLeaderElection loggerErr clientv3_New config = Inr (l, cli)" and "nc_NodeName (lc_Node config) \<noteq> ''''"
    and "net_reachable l s"
  shows "(\<exists>r. reachable (\<lambda>r. r = election_started l) election_step r \<and> net_match s r)
    \<and> (IsLeader (en_l s) \<longleftrightarrow> LeaderName (en_l s) = le_nodeName (en_l s))"
proof -
  obtain r where r: "reachable (\<lambda>r. r = election_started l) election_step r" "net_match s r"
    using net_refines_election [OF assms(3)] by blast
  from election_reachable_consistent [OF assms(1,2) r(1)] have "role_consistent (er_l r)" .
  with net_match_eqs [OF r(2)] r show ?thesis
    by (auto simp: role_consistent_def IsLeader_def LeaderName_def)
qed

theorem election_interleaving_refines_witness:
  "\<not> IsLeader (en_l notified) \<and> LeaderName (en_l notified) \<noteq> ''node1''
   \<and> (\<exists>r. reachable (\<lambda>r. r = election_started sample_election) election_step r \<and> net_match notified r)"
proof -
  have facts: "\<not> IsLeader (en_l notified)" "le_nodeName (en_l notified) = ''node1''"
    by (simp_all add: notified_def notified_labels_def net_started_def sample_election_def NewLeaderElection_def Watch_def
        newSink_def setRole_def IsLeader_def example_config_def node2_leads_def)
  with election_interleaving_refines [OF sample_election_new _ notified_reachable] show ?thesis
    by (simp add: example_config_def)
qed

subsection \<open>The newest event is not lost\<close>

text \<open>A listener's events, delivered or in its channel, end with the given one.\<close>

definition informed :: "LeaderEvent \<Rightarrow> 64 word \<Rightarrow> election_net \<Rightarrow> bool" where
  "informed ev i s \<longleftrightarrow> (\<exists>evs. en_delivered s i @ sk_leaderCh (le_sinks (en_l s) i) = evs @ [ev])"

text \<open>The listeners that were registered before the observer's last report.\<close>

definition concerned :: "election_net \<Rightarrow> 64 word set" where
  "concerned s = {i \<in> le_listeners (en_l s). en_since s i < length (en_reported s)}"

definition newest_inv :: "election_net \<Rightarrow> bool" where
  "newest_inv s \<longleftrightarrow> (\<not> en_lost s \<longrightarrow> en_announce s = Quiet \<and>
     (case en_report s of
        Quiet \<Rightarrow> (\<forall>i \<in> concerned s. informed (last (en_reported s)) i s)
      | Announcing ev \<Rightarrow> en_reported s \<noteq> [] \<and> last (en_reported s) = ev
      | Delivering ev ids pc \<Rightarrow> en_reported s \<noteq> [] \<and> last (en_reported s) = ev \<and> distinct ids
          \<and> (\<forall>i \<in> concerned s. i \<in> set ids \<or> informed ev i s)
          \<and> (pc = EnqResend \<longrightarrow> ids \<noteq> [] \<and> sk_leaderCh (le_sinks (en_l s) (hd ids)) = [])))"

text \<open>What the invariant depends on.\<close>

definition news :: "election_net \<Rightarrow> _" where
  "news s = (en_lost s, en_announce s, en_report s, en_reported s, en_since s, le_listeners (en_l s), en_delivered s,
     (\<lambda>i. sk_leaderCh (le_sinks (en_l s) i)))"

lemma newest_inv_news: "news s' = news s \<Longrightarrow> newest_inv s' = newest_inv s"
  by (simp add: news_def newest_inv_def informed_def concerned_def fun_eq_iff split: producer.split)

fun changes_news :: "net_label \<Rightarrow> bool" where
  "changes_news LExpired = True"
| "changes_news LResignLost = True"
| "changes_news (LCollect ids) = True"
| "changes_news (LDeliver p) = True"
| "changes_news (LObserve kvs) = True"
| "changes_news (LReportCollect ids) = True"
| "changes_news (LReportDeliver p) = True"
| "changes_news LWatch = True"
| "changes_news (LUnwatch i) = True"
| "changes_news LCloseAll = True"
| "changes_news (LListen i c) = (c = CaseLeader)"
| "changes_news l = False"

lemma listen_news: "c \<noteq> CaseLeader \<Longrightarrow> news (listen i c s) = news s"
  by (cases c) (auto simp: news_def listen_def)

lemma news_step:
  assumes "net_exec l s = Some s'" and "\<not> changes_news l"
  shows "news s' = news s"
proof (cases l)
  case (LMemberDeliver pick)
  with assms obtain p sinks where "deliverMember pick (en_member s) (le_sinks (en_l s)) = Some (p, sinks)"
    "s' = s\<lparr>en_member := p, en_l := (en_l s)\<lparr>le_sinks := sinks\<rparr>\<rparr>" by auto
  then show ?thesis using deliverMember_sinks by (simp add: news_def)
next
  case (LListen i c)
  with assms show ?thesis by (auto simp: listen_news split: if_splits)
qed (use assms in \<open>auto simp: news_def sink_close_def becomeLeader_def setRole_def split: if_splits\<close>)

lemma newest_deliver:
  assumes "newest_inv s" and "net_wf s" and "\<not> en_lost s"
    and "deliver pick (en_report s) (le_sinks (en_l s)) = Some (p, sinks)"
    and s': "s' = s\<lparr>en_report := p, en_l := (en_l s)\<lparr>le_sinks := sinks\<rparr>\<rparr>"
  shows "newest_inv s'"
  using assms(4)
proof (cases rule: deliver_cases)
  case (finished ev pc)
  with assms(1,3) s' show ?thesis by (auto simp: newest_inv_def informed_def concerned_def)
next
  case (select ev i "is" pc r sk)
  have d: "en_announce s = Quiet" "en_reported s \<noteq> []" "last (en_reported s) = ev" "distinct (i # is)"
      "\<And>j. j \<in> concerned s \<Longrightarrow> j \<in> set (i # is) \<or> informed ev j s"
      "pc = EnqResend \<Longrightarrow> sk_leaderCh (le_sinks (en_l s) i) = []"
    using assms(1,3) select(1) by (auto simp: newest_inv_def)
  have same: "concerned s' = concerned s" "\<And>j. j \<noteq> i \<Longrightarrow> informed ev j s' = informed ev j s"
    by (simp_all add: s' concerned_def informed_def select(3))
  have open_: "i \<in> concerned s \<Longrightarrow> \<not> sk_done (le_sinks (en_l s) i)" and short: "length (sk_leaderCh (le_sinks (en_l s) i)) \<le> 1"
    using assms(2) by (auto simp: net_wf_def concerned_def sink_ok_def)
  have fields: "en_lost s' = en_lost s" "en_announce s' = Quiet" "en_reported s' = en_reported s" "en_report s' = p"
      "le_sinks (en_l s') i = sk"
    using d(1) by (simp_all add: s' select(3))
  show ?thesis
  proof (cases r)
    case None
    then have "informed ev i s'" if "i \<in> concerned s"
      using select(2) open_ [OF that] d(6) that by (cases pc) (auto simp: informed_def s' select(3) split: if_splits)
    then have "\<forall>j \<in> concerned s'. j \<in> set is \<or> informed ev j s'" using d(5) same by (metis set_ConsD)
    with None d fields select(4) show ?thesis by (auto simp: newest_inv_def)
  next
    case (Some pc')
    have "tl (sk_leaderCh (le_sinks (en_l s) i)) = []" using short by (cases "sk_leaderCh (le_sinks (en_l s) i)") auto
    then have "pc' = EnqResend \<Longrightarrow> sk_leaderCh sk = []"
      using select(2) Some by (cases pc) (auto split: if_splits)
    moreover have "\<forall>j \<in> concerned s'. j \<in> set (i # is) \<or> informed ev j s'" using d(5) same by (metis list.set_intros(1))
    ultimately show ?thesis using Some d fields select(4) by (auto simp: newest_inv_def)
  qed
qed

lemma lost_step: "net_exec l s = Some s' \<Longrightarrow> en_lost s \<Longrightarrow> en_lost s'"
  by (cases l) (auto simp: lose_def Watch_def Let_def split: if_splits list.splits)

lemma newest_lost: "en_lost s \<Longrightarrow> newest_inv s"
  by (simp add: newest_inv_def)

lemma collect_Some:
  "collect ids listeners p = Some p' \<longleftrightarrow> (\<exists>ev. p = Announcing ev \<and> p' = Delivering ev ids EnqCheck) \<and> distinct ids \<and> listeners = set ids"
  by (cases p) auto

text \<open>Steps that report nothing and take nothing away from the listeners that remain.\<close>

lemma newest_mono:
  assumes "newest_inv s" and "en_lost s' = en_lost s" and "en_announce s' = en_announce s" and "en_report s' = en_report s"
    and "en_reported s' = en_reported s" and "concerned s' \<subseteq> concerned s"
    and "\<And>i ev. i \<in> concerned s' \<Longrightarrow> informed ev i s \<Longrightarrow> informed ev i s'"
    and "\<And>i. sk_leaderCh (le_sinks (en_l s) i) = [] \<Longrightarrow> sk_leaderCh (le_sinks (en_l s') i) = []"
  shows "newest_inv s'"
proof (cases "en_report s")
  case Quiet
  with assms(1-7) show ?thesis unfolding newest_inv_def by (simp add: subset_iff)
next
  case (Announcing ev)
  with assms(1-5) show ?thesis unfolding newest_inv_def by simp
next
  case (Delivering ev ids pc)
  with assms(1,2) have "\<not> en_lost s' \<Longrightarrow> (\<forall>i \<in> concerned s. i \<in> set ids \<or> informed ev i s)"
    unfolding newest_inv_def by simp
  then have "\<not> en_lost s' \<Longrightarrow> (\<forall>i \<in> concerned s'. i \<in> set ids \<or> informed ev i s')"
    using assms(6,7) by blast
  with Delivering assms(1-5,8) show ?thesis unfolding newest_inv_def by simp
qed

lemma newest_listen:
  assumes "newest_inv s" and "listener_ready (le_sinks (en_l s) i) CaseLeader"
  shows "newest_inv (listen i CaseLeader s)"
proof (rule newest_mono [OF assms(1)])
  fix j ev
  have "en_delivered (listen i CaseLeader s) j @ sk_leaderCh (le_sinks (en_l (listen i CaseLeader s)) j) =
      en_delivered s j @ sk_leaderCh (le_sinks (en_l s) j)"
    using assms(2) by (cases "j = i") (simp_all add: listen_def)
  then show "informed ev j s \<Longrightarrow> informed ev j (listen i CaseLeader s)" by (simp add: informed_def)
next
  fix j
  show "sk_leaderCh (le_sinks (en_l s) j) = [] \<Longrightarrow> sk_leaderCh (le_sinks (en_l (listen i CaseLeader s)) j) = []"
    using assms(2) by (cases "j = i") (simp_all add: listen_def)
qed (simp_all add: concerned_def)

lemma newest_watch:
  assumes "newest_inv s" and "net_exec LWatch s = Some s'"
  shows "newest_inv s'"
proof -
  define i where "i = le_nextListenerID (en_l s) + 1"
  have s': "s' = s\<lparr>en_l := snd (Watch (en_l s)), en_listener := (en_listener s)(i := ListenerFirst),
      en_delivered := (en_delivered s)(i := []), en_since := (en_since s)(i := length (en_reported s))\<rparr>"
    using assms(2) by (auto simp: i_def Watch_def Let_def split: if_splits)
  have "i \<notin> concerned s'" by (simp add: s' concerned_def)
  then show ?thesis
    by (intro newest_mono [OF assms(1)]) (auto simp: s' concerned_def informed_def Watch_def Let_def i_def [symmetric] newSink_def)
qed

lemma newest_step_news:
  assumes "net_exec l s = Some s'" and "newest_inv s" and "net_wf s" and "changes_news l" and "\<not> en_lost s"
  shows "newest_inv s'"
proof -
  have quiet: "en_announce s = Quiet" using assms(2,5) by (simp add: newest_inv_def)
  from assms(4) show ?thesis
  proof (cases l)
    case (LObserve kvs)
    with assms(1,2) quiet show ?thesis by (auto simp: newest_inv_def split: if_splits list.splits)
  next
    case (LReportCollect ids)
    with assms(1) obtain p where p: "collect ids (le_listeners (en_l s)) (en_report s) = Some p" "s' = s\<lparr>en_report := p\<rparr>"
      by (auto split: if_splits)
    then obtain ev where ev: "en_report s = Announcing ev" "p = Delivering ev ids EnqCheck" "distinct ids" "le_listeners (en_l s) = set ids"
      by (auto simp: collect_Some)
    with assms(2,5) quiet p(2) show ?thesis by (simp add: newest_inv_def concerned_def)
  next
    case (LReportDeliver pick)
    with assms(1) obtain p sinks where "deliver pick (en_report s) (le_sinks (en_l s)) = Some (p, sinks)"
      "s' = s\<lparr>en_report := p, en_l := (en_l s)\<lparr>le_sinks := sinks\<rparr>\<rparr>" by auto
    then show ?thesis using newest_deliver [OF assms(2,3,5)] by blast
  next
    case LWatch
    with assms(1,2) show ?thesis using newest_watch by blast
  next
    case (LUnwatch i)
    with assms(1) show ?thesis
      by (intro newest_mono [OF assms(2)]) (auto simp: concerned_def informed_def split: if_splits)
  next
    case LCloseAll
    with assms(1) show ?thesis by (intro newest_mono [OF assms(2)]) (auto simp: concerned_def split: if_splits)
  next
    case (LListen i c)
    with assms show ?thesis by (auto intro: newest_listen split: if_splits)
  qed (use assms(1) quiet in \<open>auto simp: newest_inv_def lose_def split: if_splits\<close>)
qed

lemma newest_step:
  assumes "net_exec l s = Some s'" and "newest_inv s" and "net_wf s"
  shows "newest_inv s'"
proof (cases "changes_news l")
  case False
  then show ?thesis using assms news_step newest_inv_news by blast
next
  case True
  show ?thesis
  proof (cases "en_lost s")
    case True
    then show ?thesis using assms(1) lost_step newest_lost by blast
  next
    case False
    with True show ?thesis using newest_step_news assms by blast
  qed
qed

lemma newest_reachable:
  assumes "NewLeaderElection loggerErr clientv3_New config = Inr (l, cli)" and "net_reachable l s"
  shows "newest_inv s"
  using assms(2)
proof (rule reachable_invariant)
  fix s assume "s = net_started l"
  then show "newest_inv s" by (simp add: newest_inv_def net_started_def concerned_def)
next
  fix s s' assume "net_reachable l s" "newest_inv s" "lstep net_exec s s'"
  then show "newest_inv s'"
    using newest_step net_wf_reachable net_wf_new [OF assms(1)] by (auto simp: lstep_def)
qed

text \<open>
  As long as the campaign has not announced the end of a term, a node that was reported last takes
  itself for the leader.
\<close>

definition reported_inv :: "election_net \<Rightarrow> bool" where
  "reported_inv s \<longleftrightarrow> (\<not> en_lost s \<longrightarrow> en_reported s \<noteq> [] \<longrightarrow>
     (\<exists>kv. last (en_reported s) = elected_event kv) \<and>
     (lev_Member (last (en_reported s)) = Some (member_named (le_nodeName (en_l s))) \<longrightarrow> IsLeader (en_l s)))"

lemma member_named_eq [simp]: "member_named a = member_named b \<longleftrightarrow> a = b"
  by (simp add: member_named_def)

definition standing :: "election_net \<Rightarrow> _" where
  "standing s = (en_lost s, en_reported s, le_config (en_l s), le_myNode (en_l s))"

lemma reported_inv_standing: "standing s' = standing s \<Longrightarrow> reported_inv s' = reported_inv s"
  by (simp add: standing_def reported_inv_def IsLeader_def)

lemma standing_step:
  assumes "net_exec l s = Some s'" and "l \<notin> {LBecome, LExpired, LResignLost} \<union> range LObserve"
  shows "standing s' = standing s"
  using assms by (cases l) (auto simp: standing_def Watch_def Let_def split: if_splits)

lemma reported_step:
  assumes "net_exec l s = Some s'" and "reported_inv s"
  shows "reported_inv s'"
proof (cases "l \<in> {LBecome, LExpired, LResignLost} \<union> range LObserve")
  case False
  then show ?thesis using assms standing_step reported_inv_standing by blast
next
  case True
  then consider "l = LBecome" | "l = LExpired" | "l = LResignLost" | kvs where "l = LObserve kvs" by auto
  then show ?thesis
  proof cases
    case 1
    have "IsLeader (becomeLeader (en_l s))" by (simp add: IsLeader_def becomeLeader_def setRole_def)
    with 1 assms show ?thesis by (auto simp: reported_inv_def split: if_splits)
  next
    case 2
    with assms(1) have "en_lost s'" by (auto simp: lose_def split: if_splits)
    then show ?thesis by (simp add: reported_inv_def)
  next
    case 3
    with assms(1) have "en_lost s'" by (auto simp: lose_def split: if_splits)
    then show ?thesis by (simp add: reported_inv_def)
  next
    case (4 kvs)
    show ?thesis
    proof (cases kvs)
      case Nil
      with 4 assms show ?thesis by (simp split: if_splits)
    next
      case (Cons kv rest)
      with 4 assms(1) have s': "en_reported s' = en_reported s @ [elected_event kv]" "le_config (en_l s') = le_config (en_l s)"
          "le_myNode (en_l s') = le_myNode (setRole (if ek_Value kv = le_nodeName (en_l s) then Leader else Follower) (ek_Value kv) (en_l s))"
        by (auto split: if_splits)
      have "IsLeader (en_l s')" if "lev_Member (elected_event kv) = Some (member_named (le_nodeName (en_l s')))"
        using that s'(2,3) by (simp add: elected_event_def IsLeader_def setRole_def)
      then show ?thesis unfolding reported_inv_def s'(1) by auto
    qed
  qed
qed

lemma reported_reachable:
  assumes "net_reachable l s"
  shows "reported_inv s"
  using assms
proof (rule reachable_invariant)
  fix s assume "s = net_started l"
  then show "reported_inv s" by (simp add: reported_inv_def net_started_def)
next
  fix s s' assume "reported_inv s" "lstep net_exec s s'"
  then show "reported_inv s'" using reported_step by (auto simp: lstep_def)
qed

lemma nodeName_reachable: "net_reachable l s \<Longrightarrow> le_config (en_l s) = le_config l"
proof (erule reachable_invariant)
  fix s s' assume "le_config (en_l s) = le_config l" "lstep net_exec s s'"
  then obtain lab where "net_exec lab s = Some s'" "le_config (en_l s) = le_config l" by (auto simp: lstep_def)
  then show "le_config (en_l s') = le_config l"
    by (cases lab) (auto simp: Watch_def Let_def lose_def split: if_splits list.splits)
qed (simp add: net_started_def)

text \<open>So a listener that is given its turn has been called with the newest report.\<close>

lemma listener_catches_up:
  assumes "NewLeaderElection loggerErr clientv3_New config = Inr (l, cli)" and "net_reachable l s"
    and "\<not> en_lost s" and "en_report s = Quiet"
    and "i \<in> le_listeners (en_l s)" and "en_since s i < length (en_reported s)"
  shows "\<exists>ls s' evs. set ls \<subseteq> {LListen i CaseLeader} \<and> exec_labels net_exec ls s = Some s'
    \<and> en_delivered s' i = evs @ [last (en_reported s)] \<and> le_myNode (en_l s') = le_myNode (en_l s)"
proof -
  obtain evs where evs: "en_delivered s i @ sk_leaderCh (le_sinks (en_l s) i) = evs @ [last (en_reported s)]"
    using newest_reachable [OF assms(1,2)] assms(3-6) by (auto simp: newest_inv_def concerned_def informed_def)
  have wf: "net_wf s" by (rule net_wf_reachable [OF assms(2) net_wf_new [OF assms(1)]])
  show ?thesis
  proof (cases "sk_leaderCh (le_sinks (en_l s) i)")
    case Nil
    with evs show ?thesis by (intro exI [of _ "[]"] exI [of _ s] exI [of _ evs]) simp
  next
    case (Cons ev rest)
    have "length (sk_leaderCh (le_sinks (en_l s) i)) \<le> 1" using wf by (simp add: net_wf_def sink_ok_def)
    with Cons evs have ev: "sk_leaderCh (le_sinks (en_l s) i) = [last (en_reported s)]" by simp
    have pc: "en_listener s i = ListenerFirst \<or> en_listener s i = ListenerSecond"
      using wf assms(5) unfolding net_wf_def by blast
    have "net_exec (LListen i CaseLeader) s = Some (listen i CaseLeader s)" using pc ev by simp
    moreover have "en_delivered (listen i CaseLeader s) i = en_delivered s i @ [last (en_reported s)]"
      using ev by (simp add: listen_def)
    ultimately show ?thesis
      by (intro exI [of _ "[LListen i CaseLeader]"] exI [of _ "listen i CaseLeader s"] exI [of _ "en_delivered s i"]) simp
  qed
qed

text \<open>
  C14: while only the observer announces events, no listener misses the newest one.  Once a report
  is delivered to all sinks, the events of every listener registered before it, those it was
  called with followed by the one in its channel, end with that report, however slow the listener
  is and whatever else runs.
\<close>

theorem newest_report_reaches_listeners:
  assumes "NewLeaderElection loggerErr clientv3_New config = Inr (l, cli)" and "net_reachable l s"
    and "\<not> en_lost s" and "en_report s = Quiet"
    and "i \<in> le_listeners (en_l s)" and "en_since s i < length (en_reported s)"
  shows "\<exists>evs. en_delivered s i @ sk_leaderCh (le_sinks (en_l s) i) = evs @ [last (en_reported s)]"
  using newest_reachable [OF assms(1,2)] assms(3-6) by (auto simp: newest_inv_def concerned_def informed_def)

theorem newest_report_reaches_listeners_witness:
  "\<exists>evs. en_delivered notified 1 @ sk_leaderCh (le_sinks (en_l notified) 1) = evs @ [elected_event node2_leads]"
  using newest_report_reaches_listeners [OF sample_election_new notified_reachable, of 1] by (simp add: notified_simps)

end
