(* ===== verification/Election_Shutdown.thy ===== *)
theory Election_Shutdown
  imports Election_Delivery
begin

text \<open>
  How a term of leadership ends in the interleaved election service: after the context is cancelled
  the campaign returns in every fair run in which etcd answers its resignation, it holds the lock
  until then, and the announcement of an ended term can be overtaken by the report of its
  beginning.
\<close>

subsection \<open>The campaign returns\<close>

text \<open>The steps of the campaign's goroutine, its broadcasts included, except for the answer of etcd to a resignation.\<close>

fun of_campaign :: "net_label \<Rightarrow> bool" where
  "of_campaign LCheck = True"
| "of_campaign (LCampaign won) = True"
| "of_campaign LSlept = True"
| "of_campaign LBecome = True"
| "of_campaign LExpired = True"
| "of_campaign LCancelled = True"
| "of_campaign LResign = True"
| "of_campaign LResignLost = True"
| "of_campaign (LCollect ids) = True"
| "of_campaign (LDeliver pick) = True"
| "of_campaign l = False"

definition campaign_act :: "election_net \<Rightarrow> election_net \<Rightarrow> bool" where
  "campaign_act s s' \<longleftrightarrow> (\<exists>l. of_campaign l \<and> net_exec l s = Some s')"

text \<open>The answer of etcd to a resignation.\<close>

definition resign_act :: "election_net \<Rightarrow> election_net \<Rightarrow> bool" where
  "resign_act s s' \<longleftrightarrow> net_exec LResigned s = Some s'"

fun resign_rank :: "resign_pc \<Rightarrow> nat" where
  "resign_rank ResignBefore = 2"
| "resign_rank ResignCalling = 1"
| "resign_rank ResignAfter = 0"

fun select_rank :: "enq_pc \<Rightarrow> nat" where
  "select_rank EnqCheck = 0"
| "select_rank EnqSend = 1"
| "select_rank EnqDrop = 2"
| "select_rank EnqResend = 3"

fun producer_rank :: "producer \<Rightarrow> nat \<times> nat" where
  "producer_rank Quiet = (0, 0)"
| "producer_rank (Announcing ev) = (2, 0)"
| "producer_rank (Delivering ev ids pc) = (1, 4 * length ids - select_rank pc)"

definition shutdown_rank :: "election_net \<Rightarrow> nat \<times> nat \<times> nat \<times> nat" where
  "shutdown_rank s = (campaign_rank (en_campaign s), resign_rank (en_resign s), producer_rank (en_announce s))"

lemma deliver_rank:
  assumes "deliver pick p sinks = Some (p', sinks')"
  shows "producer_rank p' < producer_rank p"
  using assms
proof (cases rule: deliver_cases)
  case (select ev i "is" pc r s)
  then show ?thesis by (cases pc) (auto split: if_splits)
qed simp

lemma collect_rank: "collect ids listeners p = Some p' \<Longrightarrow> producer_rank p' < producer_rank p"
  by (auto simp: collect_Some)

lemma listen_resign: "en_resign (listen i c s) = en_resign s"
  by (simp add: listen_def split: prod.splits)

lemma others_rank:
  "net_exec l s = Some s' \<Longrightarrow> \<not> of_campaign l \<Longrightarrow> l \<noteq> LResigned \<Longrightarrow> shutdown_rank s' = shutdown_rank s"
  by (cases l) (auto simp: shutdown_rank_def listen_resign Watch_def Let_def split: if_splits list.splits)

lemma campaign_lowers_rank:
  assumes "net_exec l s = Some s'" and "of_campaign l \<or> l = LResigned" and "en_ctxDone s"
  shows "shutdown_rank s' < shutdown_rank s"
  using assms
  by (cases l) (auto simp: shutdown_rank_def lose_def deliver_rank collect_rank split: if_splits)

lemma ctxDone_step: "net_exec l s = Some s' \<Longrightarrow> en_ctxDone s \<Longrightarrow> en_ctxDone s'"
  by (cases l) (auto simp: lose_def Watch_def Let_def split: if_splits list.splits)

text \<open>
  Once the context is cancelled the campaign is blocked by no listener, and by etcd only while it waits
  for the answer to its resignation.
\<close>

abbreviation shutdown_act :: "election_net \<Rightarrow> election_net \<Rightarrow> bool" where
  "shutdown_act s s' \<equiv> campaign_act s s' \<or> resign_act s s'"

lemma shutdown_actI: "of_campaign l \<or> l = LResigned \<Longrightarrow> net_exec l s \<noteq> None \<Longrightarrow> \<exists>s'. shutdown_act s s'"
  by (auto simp: campaign_act_def resign_act_def)

lemma resigning_can_step: "en_campaign s = Resigning \<Longrightarrow> \<exists>s'. shutdown_act s s'"
proof (cases "en_resign s")
  case ResignBefore
  then show "en_campaign s = Resigning \<Longrightarrow> ?thesis" by (intro shutdown_actI [of LResign]) simp_all
next
  case ResignCalling
  then show ?thesis by (intro shutdown_actI [of LResigned]) simp_all
next
  case ResignAfter
  then show "en_campaign s = Resigning \<Longrightarrow> ?thesis" by (intro shutdown_actI [of LResignLost]) simp_all
qed

lemma campaign_can_step:
  assumes "en_ctxDone s" and "\<not> (en_campaign s = CampaignReturned \<and> en_announce s = Quiet)"
  shows "\<exists>s'. shutdown_act s s'"
proof (cases "en_announce s")
  case Quiet
  show ?thesis
  proof (cases "en_campaign s")
    case CampaignCheck
    with Quiet show ?thesis by (intro shutdown_actI [of LCheck]) simp_all
  next
    case Campaigning
    then show ?thesis by (intro shutdown_actI [of "LCampaign False"]) simp_all
  next
    case CampaignSleep
    then show ?thesis by (intro shutdown_actI [of LSlept]) simp_all
  next
    case CampaignWon
    then show ?thesis by (intro shutdown_actI [of LBecome]) simp_all
  next
    case Leading
    with assms(1) show ?thesis by (intro shutdown_actI [of LCancelled]) simp_all
  next
    case Resigning
    then show ?thesis by (rule resigning_can_step)
  qed (use assms(2) Quiet in simp)
next
  case (Announcing ev)
  obtain ids where ids: "set ids = le_listeners (en_l s) \<and> distinct ids"
    using finite_distinct_list [of "le_listeners (en_l s)"] by auto
  have "collect ids (le_listeners (en_l s)) (en_announce s) = Some (Delivering ev ids EnqCheck)"
    unfolding collect_Some using Announcing ids by blast
  then show ?thesis by (intro shutdown_actI [of "LCollect ids"]) simp_all
next
  case (Delivering ev ids pc)
  then have "deliver False (en_announce s) (le_sinks (en_l s)) \<noteq> None"
    by (cases ids) (auto split: prod.splits option.splits)
  then show ?thesis by (intro shutdown_actI [of "LDeliver False"]) simp_all
qed

interpretation campaign_progress:
  ranked_progress "lstep net_exec" shutdown_act en_ctxDone
    "\<lambda>s. en_campaign s = CampaignReturned \<and> en_announce s = Quiet" shutdown_rank
proof
  fix s s' :: election_net
  assume ctx: "en_ctxDone s"
  show "lstep net_exec s s' \<Longrightarrow> en_ctxDone s'" using ctx ctxDone_step by (auto simp: lstep_def)
  show "shutdown_act s s' \<Longrightarrow> shutdown_rank s' < shutdown_rank s"
    using ctx campaign_lowers_rank unfolding campaign_act_def resign_act_def by blast
  show "lstep net_exec s s' \<Longrightarrow> shutdown_rank s' \<le> shutdown_rank s"
    using ctx campaign_lowers_rank others_rank unfolding lstep_def by (metis order.refl order.strict_implies_order)
  show "\<not> (en_campaign s = CampaignReturned \<and> en_announce s = Quiet) \<Longrightarrow> \<exists>s'. shutdown_act s s'"
    by (rule campaign_can_step [OF ctx])
qed

text \<open>While etcd does not answer, the resignation goes on and keeps the lock: no role and no set of listeners changes.\<close>

lemma calling_stays:
  assumes "net_exec l s = Some s'" and "en_resign s = ResignCalling" and "l \<noteq> LResigned"
  shows "en_resign s' = ResignCalling"
  using assms by (cases l) (auto simp: lose_def listen_resign split: if_splits)

lemma resign_holds_lock:
  assumes "net_exec l s = Some s'" and "en_resign s = ResignCalling" and "en_campaign s = Resigning" and "l \<noteq> LResigned"
  shows "en_campaign s' = Resigning \<and> le_myNode (en_l s') = le_myNode (en_l s) \<and> le_listeners (en_l s') = le_listeners (en_l s)"
  using assms by (cases l) (auto split: if_splits)

text \<open>
  C13: shutdown is blocked by no listener.  In every infinite run of the service in which the context
  is cancelled at some time, the campaign's goroutine has returned at some later time, and its
  broadcasts have ended, even if no listener ever takes an event.  This is so where the goroutine
  is scheduled fairly, a campaign that is cancelled returns, and etcd answers a resignation.  The
  last event may still have been dropped by a sink.
\<close>

theorem campaign_returns:
  assumes "is_run (lstep net_exec) \<sigma>" and "weakly_fair campaign_act \<sigma>" and "weakly_fair resign_act \<sigma>"
    and "en_ctxDone (\<sigma> k)"
  shows "\<exists>n\<ge>k. en_campaign (\<sigma> n) = CampaignReturned \<and> en_announce (\<sigma> n) = Quiet"
proof -
  have "resign_act s s' \<or> (\<exists>t. resign_act s' t)" if "lstep net_exec s s'" "\<exists>t. resign_act s t" for s s'
  proof -
    from that obtain l where "net_exec l s = Some s'" "en_resign s = ResignCalling"
      by (auto simp: lstep_def resign_act_def split: if_splits)
    then show ?thesis using calling_stays [of l s s'] by (cases "l = LResigned") (auto simp: resign_act_def)
  qed
  then have fair: "weakly_fair shutdown_act \<sigma>" by (rule weakly_fair_either [OF assms(1-3)])
  have "\<exists>n. en_campaign (\<sigma> (k + n)) = CampaignReturned \<and> en_announce (\<sigma> (k + n)) = Quiet"
    by (rule campaign_progress.eventually_goal)
      (use assms(1,4) fair in \<open>simp_all add: is_run_suffix weakly_fair_suffix [of shutdown_act]\<close>)
  then show ?thesis by (metis le_add1)
qed

text \<open>The leader is stopped: it resigns and announces it to its one listener.\<close>

definition leading_labels :: "net_label list" where
  "leading_labels = [LWatch, LCheck, LCampaign True, LBecome]"

definition resigning_labels :: "net_label list" where
  "resigning_labels = leading_labels @ [LCancel, LCancelled, LCheck, LResign]"

definition stopping_labels :: "net_label list" where
  "stopping_labels = resigning_labels @ [LResigned, LResignLost, LCollect [1], LDeliver False, LDeliver False, LDeliver False]"

abbreviation stopping_run :: "nat \<Rightarrow> election_net" where
  "stopping_run \<equiv> replay net_exec stopping_labels (net_started sample_election)"

lemma leading_exec:
  "\<exists>s. exec_labels net_exec leading_labels (net_started sample_election) = Some s
     \<and> en_campaign s = Leading \<and> en_resign s = ResignBefore \<and> en_announce s = Quiet \<and> IsLeader (en_l s)
     \<and> le_listeners (en_l s) = {1} \<and> le_sinks (en_l s) 1 = newSink"
  by (simp add: leading_labels_def net_started_def sample_election_def NewLeaderElection_def Watch_def becomeLeader_def
      setRole_def IsLeader_def)

lemma resigning_exec:
  "\<exists>s. exec_labels net_exec resigning_labels (net_started sample_election) = Some s
     \<and> en_campaign s = Resigning \<and> en_resign s = ResignCalling \<and> en_announce s = Quiet
     \<and> le_listeners (en_l s) = {1} \<and> le_sinks (en_l s) 1 = newSink"
proof -
  obtain s where s: "exec_labels net_exec leading_labels (net_started sample_election) = Some s"
      "en_campaign s = Leading" "en_resign s = ResignBefore" "en_announce s = Quiet" "IsLeader (en_l s)"
      "le_listeners (en_l s) = {1}" "le_sinks (en_l s) 1 = newSink"
    using leading_exec by blast
  then show ?thesis by (simp add: resigning_labels_def exec_labels_append)
qed

lemma stopping_exec:
  "\<exists>s. exec_labels net_exec stopping_labels (net_started sample_election) = Some s
     \<and> en_campaign s = CampaignReturned \<and> en_announce s = Quiet \<and> en_resign s = ResignAfter"
proof -
  obtain s where s: "exec_labels net_exec resigning_labels (net_started sample_election) = Some s"
      "en_campaign s = Resigning" "en_resign s = ResignCalling" "en_announce s = Quiet"
      "le_listeners (en_l s) = {1}" "le_sinks (en_l s) 1 = newSink"
    using resigning_exec by blast
  then show ?thesis by (simp add: stopping_labels_def exec_labels_append lose_def newSink_def)
qed

lemma cancelled_at:
  assumes "ls = resigning_labels @ ls'"
  shows "en_ctxDone (replay net_exec ls (net_started sample_election) 5)"
proof -
  have "take 5 ls = leading_labels @ [LCancel]" by (simp add: assms resigning_labels_def leading_labels_def)
  moreover obtain s where "exec_labels net_exec leading_labels (net_started sample_election) = Some s"
    using leading_exec by blast
  ultimately show ?thesis by (simp add: replay_def exec_labels_append)
qed

theorem campaign_returns_witness: "\<exists>n\<ge>5. en_campaign (stopping_run n) = CampaignReturned"
proof -
  obtain s where run: "exec_labels net_exec stopping_labels (net_started sample_election) = Some s"
    and s: "en_campaign s = CampaignReturned" "en_announce s = Quiet" "en_resign s = ResignAfter"
    using stopping_exec by blast
  have "net_exec l s = None" if "of_campaign l" for l using that s by (cases l) simp_all
  then have "\<nexists>s'. campaign_act s s'" by (auto simp: campaign_act_def)
  note fair = replay_fair [of _ _ _ _ campaign_act, OF run this]
  have "\<nexists>s'. resign_act s s'" using s by (simp add: resign_act_def)
  note answers = replay_fair [of _ _ _ _ resign_act, OF run this]
  have "en_ctxDone (stopping_run 5)" by (rule cancelled_at) (rule stopping_labels_def)
  from campaign_returns [OF replay_run [OF run] fair answers this] show ?thesis by blast
qed

text \<open>
  The answer of etcd is needed: in the run in which it does not come, the campaign's goroutine is
  scheduled fairly and never returns.
\<close>

lemma unanswered_resignation:
  "\<exists>\<sigma>. is_run (lstep net_exec) \<sigma> \<and> \<sigma> 0 = net_started sample_election \<and> weakly_fair campaign_act \<sigma> \<and> en_ctxDone (\<sigma> 5)
     \<and> (\<forall>n\<ge>8. en_campaign (\<sigma> n) = Resigning \<and> en_resign (\<sigma> n) = ResignCalling)"
proof -
  let ?run = "replay net_exec resigning_labels (net_started sample_election)"
  obtain s where run: "exec_labels net_exec resigning_labels (net_started sample_election) = Some s"
    and s: "en_campaign s = Resigning" "en_resign s = ResignCalling" "en_announce s = Quiet"
    using resigning_exec by blast
  have "net_exec l s = None" if "of_campaign l" for l using that s by (cases l) simp_all
  then have "\<nexists>s'. campaign_act s s'" by (auto simp: campaign_act_def)
  from replay_fair [of _ _ _ _ campaign_act, OF run this] have "weakly_fair campaign_act ?run" .
  moreover have "?run n = s" if "8 \<le> n" for n by (rule replay_end [OF run]) (use that in \<open>simp add: resigning_labels_def leading_labels_def\<close>)
  moreover have "en_ctxDone (?run 5)" by (rule cancelled_at) simp
  moreover have "?run 0 = net_started sample_election" by (simp add: replay_def)
  ultimately show ?thesis using replay_run [OF run] s by (intro exI [of _ ?run]) simp
qed

subsection \<open>An overtaken announcement\<close>

text \<open>
  The node wins, the observer handles the response that reports it, the session expires, and the
  campaign announces the end of the term before the observer has reached the sinks.
\<close>

definition node1_leads :: etcd_kv where
  "node1_leads = \<lparr>ek_Key = electionKey, ek_Value = ''node1'', ek_CreateRevision = 7\<rparr>"

definition overtaken_labels :: "net_label list" where
  "overtaken_labels =
     [LWatch, LCheck, LCampaign True, LBecome, LObserve [node1_leads], LExpire, LExpired,
      LCollect [1], LDeliver False, LDeliver False, LDeliver False,
      LReportCollect [1], LReportDeliver False, LReportDeliver False, LReportDeliver False, LReportDeliver False, LReportDeliver False]"

definition overtaken :: election_net where
  "overtaken = the (exec_labels net_exec overtaken_labels (net_started sample_election))"

lemmas overtaken_eval = overtaken_def overtaken_labels_def net_started_def sample_election_def NewLeaderElection_def
  Watch_def newSink_def lose_def becomeLeader_def setRole_def node1_leads_def

lemma overtaken_exec: "exec_labels net_exec overtaken_labels (net_started sample_election) = Some overtaken"
  by (simp add: overtaken_eval)

lemma overtaken_reachable: "net_reachable sample_election overtaken"
  by (rule exec_labels_from_init [OF overtaken_exec])

lemma overtaken_simps:
  "en_announce overtaken = Quiet" "en_report overtaken = Quiet" "en_expired overtaken" "\<not> IsLeader (en_l overtaken)"
  "LeaderName (en_l overtaken) = ''''" "1 \<in> le_listeners (en_l overtaken)" "en_delivered overtaken 1 = []"
  "sk_leaderCh (le_sinks (en_l overtaken) 1) = [elected_event node1_leads]"
  by (simp_all add: overtaken_eval elected_event_def IsLeader_def LeaderName_def)

end
