(* ===== verification/Node_Server.thy ===== *)
theory Node_Server
  imports Config "HOL-Library.Multiset"
begin

text \<open>
  \<open>internal/cluster/server.go\<close>: the embedded etcd server of a node.  What the file system answers,
  the parser of URLs and the etcd server are arguments.  The walk over a directory is
  \<open>filepath.WalkDir\<close> of the standard library, with the function the code gives to it.  A path is the
  list of its elements after cleaning, and joining an element appends it; \<open>fs_Clean\<close> and \<open>fs_show\<close> convert
  between such lists and strings.
\<close>

subsection \<open>The file system\<close>

type_synonym path = "string list"

text \<open>The answer of \<open>os.Stat\<close>; an error comes with what \<open>os.IsNotExist\<close> says of it.\<close>

datatype stat_result = StatErr bool go_error | StatDir | StatRegular int | StatOther

text \<open>
  What a walk sees below a path: something that is not a directory, or a directory with the error
  of reading it, if any, and its entries in the order of their names.
\<close>

datatype dir_tree = NonDir | DirTree "go_error option" dir_entries
  and dir_entries = NoEntry | Entry string dir_tree dir_entries

record file_system =
  fs_Stat :: "path \<Rightarrow> stat_result"
  fs_Lstat :: "path \<Rightarrow> go_error + dir_tree"
  fs_Clean :: "string \<Rightarrow> path"
  fs_show :: "path \<Rightarrow> string"

text \<open>The function given to \<open>WalkDir\<close>: the result it returns, and whether it has set \<open>hasFile\<close>.\<close>

datatype walk_result = WalkOn | SkipDir | SkipAll | WalkErr go_error

definition visit :: "path \<Rightarrow> path \<Rightarrow> bool \<Rightarrow> go_error option \<Rightarrow> walk_result \<times> bool" where
  "visit dir path isDir err =
     (case err of
        Some e \<Rightarrow> (if path = dir then WalkErr e else SkipDir, False)
      | None \<Rightarrow> if \<not> isDir then (SkipAll, True) else (WalkOn, False))"

text \<open>
  The walk.  A directory is visited, then read; an error of reading it is a second visit.  Skipping
  a directory ends at that directory, and any other result ends the walk.
\<close>

fun walkDir :: "path \<Rightarrow> path \<Rightarrow> dir_tree \<Rightarrow> walk_result \<times> bool"
  and walkEntries :: "path \<Rightarrow> path \<Rightarrow> dir_entries \<Rightarrow> walk_result \<times> bool" where
  "walkDir dir path NonDir = visit dir path False None"
| "walkDir dir path (DirTree readErr entries) =
     (case visit dir path True None of
        (WalkOn, f) \<Rightarrow>
          (case readErr of
             None \<Rightarrow> walkEntries dir path entries
           | Some e \<Rightarrow>
             (case visit dir path True (Some e) of
                (WalkOn, f') \<Rightarrow> walkEntries dir path entries
              | (SkipDir, f') \<Rightarrow> (WalkOn, f')
              | (r, f') \<Rightarrow> (r, f')))
      | (SkipDir, f) \<Rightarrow> (WalkOn, f)
      | (r, f) \<Rightarrow> (r, f))"
| "walkEntries dir path NoEntry = (WalkOn, False)"
| "walkEntries dir path (Entry name t rest) =
     (case walkDir dir (path @ [name]) t of
        (WalkOn, f) \<Rightarrow> (case walkEntries dir path rest of (r, f') \<Rightarrow> (r, f \<or> f'))
      | (SkipDir, f) \<Rightarrow> (WalkOn, f)
      | (r, f) \<Rightarrow> (r, f))"

definition hasFilesInDirectory :: "file_system \<Rightarrow> path \<Rightarrow> bool" where
  "hasFilesInDirectory fs dir =
     (case (case fs_Lstat fs dir of
              Inl err \<Rightarrow> visit dir dir False (Some err)
            | Inr t \<Rightarrow> walkDir dir dir t) of
        (WalkErr err, hasFile) \<Rightarrow> False
      | (r, hasFile) \<Rightarrow> hasFile)"

definition hasNonEmptyFile :: "file_system \<Rightarrow> path \<Rightarrow> bool" where
  "hasNonEmptyFile fs path =
     (case fs_Stat fs path of
        StatErr notExist err \<Rightarrow> False
      | StatDir \<Rightarrow> False
      | StatOther \<Rightarrow> False
      | StatRegular n \<Rightarrow> n > 0)"

definition detectClusterState :: "file_system \<Rightarrow> string \<Rightarrow> string outcome" where
  "detectClusterState fs dataDir =
     (let memberDir = fs_Clean fs dataDir @ [''member''];
          walDir = memberDir @ [''wal''];
          snapDir = memberDir @ [''snap''];
          snapDB = snapDir @ [''db'']
      in case fs_Stat fs memberDir of
           StatErr notExist err \<Rightarrow>
             if notExist then Ok ''new''
             else Panic (''failed to access member directory '' @ fs_show fs memberDir @ '': '' @ err)
         | StatRegular n \<Rightarrow> Panic (''member path exists but is not a directory: '' @ fs_show fs memberDir)
         | StatOther \<Rightarrow> Panic (''member path exists but is not a directory: '' @ fs_show fs memberDir)
         | StatDir \<Rightarrow>
             if hasFilesInDirectory fs walDir \<or> hasNonEmptyFile fs snapDB then Ok ''existing''
             else Panic (''member directory exists but contains no valid etcd data (no WAL files, no snapshot DB). ''
                    @ ''This indicates interrupted initialization or corruption. ''
                    @ ''Please manually remove '' @ fs_show fs memberDir @ '' to re-bootstrap, or restore from backup.''))"

subsection \<open>The configuration of etcd\<close>

text \<open>The fields the code sets; the rest is as \<open>embed.NewConfig\<close> gave it.\<close>

record 'u embed_Config =
  ec_Name :: string
  ec_Dir :: string
  ec_InitialClusterToken :: string
  ec_InitialCluster :: string
  ec_ClusterState :: string
  ec_ListenClientUrls :: "'u list"
  ec_AdvertiseClientUrls :: "'u list"
  ec_ListenPeerUrls :: "'u list"
  ec_AdvertisePeerUrls :: "'u list"
  ec_TickMs :: "64 word"
  ec_ElectionMs :: "64 word"
  ec_AutoCompactionMode :: string
  ec_AutoCompactionRetention :: string
  ec_QuotaBackendBytes :: int
  ec_LogLevel :: string

text \<open>What the code uses of other packages: the default configuration, \<open>url.Parse\<close>, and the verb \<open>%q\<close>.\<close>

record 'u embed_env =
  ev_NewConfig :: "'u embed_Config"
  ev_Parse :: "string \<Rightarrow> go_error + 'u"
  ev_quote :: "string \<Rightarrow> string"

fun parseURLs :: "'u embed_env \<Rightarrow> string list \<Rightarrow> go_error + 'u list" where
  "parseURLs E [] = Inr []"
| "parseURLs E (urlStr # urlList) =
     (case ev_Parse E urlStr of
        Inl err \<Rightarrow> Inl (''invalid URL '' @ ev_quote E urlStr @ '': '' @ err)
      | Inr parsedURL \<Rightarrow>
          (case parseURLs E urlList of Inl e \<Rightarrow> Inl e | Inr urls \<Rightarrow> Inr (parsedURL # urls)))"

definition buildEtcdConfig :: "file_system \<Rightarrow> 'u embed_env \<Rightarrow> LeibrixConfig \<Rightarrow> 'u embed_Config outcome" where
  "buildEtcdConfig fs E config =
     (let cc = lc_ClusterConfig config
      in case detectClusterState fs (nc_DataDir (lc_Node config)) of
           Err e \<Rightarrow> Err e
         | Panic p \<Rightarrow> Panic p
         | Ok clusterState \<Rightarrow>
           (case parseURLs E (cc_ListenClientUrls cc) of
              Inl err \<Rightarrow> Err (''invalid client URLs: '' @ err)
            | Inr clientURLs \<Rightarrow>
              (case parseURLs E (cc_AdvertisePeerUrls cc) of
                 Inl err \<Rightarrow> Err (''invalid peer URLs: '' @ err)
               | Inr peerURLs \<Rightarrow>
                 (let tickMs = (if cc_HeartbeatMs cc > 0 then cc_HeartbeatMs cc else 100);
                      electionMs = (if cc_ElectionMs cc = 0 then 3000 else cc_ElectionMs cc);
                      minRequiredElectionMs = 10 * tickMs
                  in if electionMs < minRequiredElectionMs
                     then Err (''invalid configuration: ElectionMs ('' @ string_of_int (uint electionMs)
                        @ ''ms) must be at least 10 times HeartbeatMs ('' @ string_of_int (uint tickMs)
                        @ ''ms). Minimum required: '' @ string_of_int (uint minRequiredElectionMs) @ ''ms'')
                     else Ok ((ev_NewConfig E)
                       \<lparr>ec_Name := nc_NodeName (lc_Node config), ec_Dir := nc_DataDir (lc_Node config),
                        ec_InitialClusterToken := cc_InitialClusterToken cc, ec_InitialCluster := cc_InitialCluster cc,
                        ec_ClusterState := clusterState,
                        ec_ListenClientUrls := clientURLs, ec_AdvertiseClientUrls := clientURLs,
                        ec_ListenPeerUrls := peerURLs, ec_AdvertisePeerUrls := peerURLs,
                        ec_TickMs := tickMs, ec_ElectionMs := electionMs,
                        ec_AutoCompactionMode := ''revision'', ec_AutoCompactionRetention := ''100000'',
                        ec_QuotaBackendBytes := 6 * 2 ^ 30, ec_LogLevel := cc_LogLevel cc\<rparr>)))))"

subsection \<open>Starting and stopping\<close>

abbreviation ServerStateInit :: "32 word" where "ServerStateInit \<equiv> 0"
abbreviation ServerStateReady :: "32 word" where "ServerStateReady \<equiv> 16"
abbreviation ServerStateStopped :: "32 word" where "ServerStateStopped \<equiv> 32"
abbreviation ServerStartDeadline :: int where "ServerStartDeadline \<equiv> 60 * 1000000000"

record 'e LeibrixNodeServer =
  ns_config :: LeibrixConfig
  ns_embedEtcd :: "'e option"
  ns_serverState :: "32 word"

definition NewLeibrixNodeServer :: "LeibrixConfig \<Rightarrow> 'e LeibrixNodeServer" where
  "NewLeibrixNodeServer config = \<lparr>ns_config = config, ns_embedEtcd = None, ns_serverState = ServerStateInit\<rparr>"

text \<open>A state that the map of names does not have gives the empty string.\<close>

definition GetServerState :: "'e LeibrixNodeServer \<Rightarrow> string" where
  "GetServerState s =
     (if ns_serverState s = ServerStateInit then ''init''
      else if ns_serverState s = ServerStateReady then ''ready''
      else if ns_serverState s = ServerStateStopped then ''stopped''
      else '''')"

definition markReady :: "'e \<Rightarrow> 'e LeibrixNodeServer \<Rightarrow> 'e LeibrixNodeServer" where
  "markReady e s = s\<lparr>ns_embedEtcd := Some e, ns_serverState := ns_serverState s + ServerStateReady\<rparr>"

text \<open>
  The etcd server: starting it, and the wait for it within a time, which gives the context's error
  when that comes first.
\<close>

record ('u, 'e) etcd_server =
  es_StartEtcd :: "'u embed_Config \<Rightarrow> go_error + 'e"
  es_wait :: "int \<Rightarrow> 'e \<Rightarrow> go_error option"

text \<open>The results also list the etcd servers that were started and closed.\<close>

definition Server_Start ::
  "file_system \<Rightarrow> 'u embed_env \<Rightarrow> ('u, 'e) etcd_server \<Rightarrow> int \<Rightarrow> 'e LeibrixNodeServer
   \<Rightarrow> unit outcome \<times> 'e LeibrixNodeServer \<times> 'e list \<times> 'e list" where
  "Server_Start fs E S startTimeout s =
     (if ns_serverState s \<noteq> ServerStateInit then (Ok (), s, [], [])
      else case buildEtcdConfig fs E (ns_config s) of
             Err err \<Rightarrow> (Err err, s, [], [])
           | Panic p \<Rightarrow> (Panic p, s, [], [])
           | Ok cfg \<Rightarrow>
             (case es_StartEtcd S cfg of
                Inl startErr \<Rightarrow> (Err startErr, s, [], [])
              | Inr e \<Rightarrow>
                (case es_wait S (if startTimeout \<le> 0 then ServerStartDeadline else startTimeout) e of
                   None \<Rightarrow> (Ok (), markReady e s, [e], [])
                 | Some ctxErr \<Rightarrow> (Err ctxErr, s, [e], [e]))))"

text \<open>Whether the server stops in time or not, it is marked as stopped and no error is returned.\<close>

definition Server_Stop :: "'e LeibrixNodeServer \<Rightarrow> unit outcome \<times> 'e LeibrixNodeServer \<times> 'e list" where
  "Server_Stop s =
     (if ns_serverState s \<noteq> ServerStateReady then (Ok (), s, [])
      else case ns_embedEtcd s of
             None \<Rightarrow> (Err ''inconsistent server state: embedEtcd is nil'', s\<lparr>ns_serverState := ServerStateStopped\<rparr>, [])
           | Some e \<Rightarrow> (Ok (), s\<lparr>ns_serverState := ServerStateStopped\<rparr>, [e]))"

subsection \<open>Bootstrapping or rejoining\<close>

text \<open>There is a file below a tree, reached through directories that can be read.\<close>

fun has_file :: "dir_tree \<Rightarrow> bool" and has_file_entries :: "dir_entries \<Rightarrow> bool" where
  "has_file NonDir = True"
| "has_file (DirTree readErr entries) = (readErr = None \<and> has_file_entries entries)"
| "has_file_entries NoEntry = False"
| "has_file_entries (Entry name t rest) = (has_file t \<or> has_file_entries rest)"

lemma walk_below:
  "length dir < length path \<Longrightarrow> walkDir dir path t = (if has_file t then (SkipAll, True) else (WalkOn, False))"
  "length dir \<le> length path \<Longrightarrow> walkEntries dir path es = (if has_file_entries es then (SkipAll, True) else (WalkOn, False))"
proof (induction t and es arbitrary: path and path)
  case (DirTree readErr entries)
  then show ?case by (cases readErr) (auto simp: visit_def)
qed (auto simp: visit_def)

lemma hasFilesInDirectory_iff:
  "hasFilesInDirectory fs dir \<longleftrightarrow> (case fs_Lstat fs dir of Inl err \<Rightarrow> False | Inr t \<Rightarrow> has_file t)"
proof (cases "fs_Lstat fs dir")
  case (Inr t)
  show ?thesis
  proof (cases t)
    case (DirTree readErr entries)
    with Inr show ?thesis by (cases readErr) (auto simp: hasFilesInDirectory_def visit_def walk_below(2))
  qed (simp add: Inr hasFilesInDirectory_def visit_def)
qed (simp add: hasFilesInDirectory_def visit_def)

definition member_dir :: "file_system \<Rightarrow> string \<Rightarrow> path" where
  "member_dir fs dataDir = fs_Clean fs dataDir @ [''member'']"

text \<open>The data etcd left behind: a file below \<open>wal\<close>, or a snapshot database that is not empty.\<close>

definition etcd_data :: "file_system \<Rightarrow> string \<Rightarrow> bool" where
  "etcd_data fs dataDir \<longleftrightarrow>
     (\<exists>t. fs_Lstat fs (member_dir fs dataDir @ [''wal'']) = Inr t \<and> has_file t)
   \<or> (\<exists>n>0. fs_Stat fs (member_dir fs dataDir @ [''snap'', ''db'']) = StatRegular n)"

text \<open>
  C38: a node bootstraps a new cluster exactly when it has no member directory, rejoins exactly when
  the member directory holds data of etcd, and panics in every other case, so a directory
  without data, or one that cannot be examined, is never taken for a fresh start.
\<close>

theorem detectClusterState_correct:
  "(detectClusterState fs dataDir = Ok ''new'' \<longleftrightarrow> (\<exists>err. fs_Stat fs (member_dir fs dataDir) = StatErr True err))
 \<and> (detectClusterState fs dataDir = Ok ''existing'' \<longleftrightarrow> fs_Stat fs (member_dir fs dataDir) = StatDir \<and> etcd_data fs dataDir)
 \<and> (detectClusterState fs dataDir \<in> {Ok ''new'', Ok ''existing''} \<or> (\<exists>p. detectClusterState fs dataDir = Panic p))"
proof -
  have data: "hasFilesInDirectory fs (fs_Clean fs dataDir @ [''member'', ''wal''])
      \<or> hasNonEmptyFile fs (fs_Clean fs dataDir @ [''member'', ''snap'', ''db'']) \<longleftrightarrow> etcd_data fs dataDir"
    by (auto simp: etcd_data_def member_dir_def hasFilesInDirectory_iff hasNonEmptyFile_def split: sum.splits stat_result.splits)
  show ?thesis
    by (cases "fs_Stat fs (member_dir fs dataDir)") (auto simp: detectClusterState_def Let_def member_dir_def data)
qed

text \<open>A regular file in place of the directory \<open>wal\<close> counts as data.\<close>

lemma wal_file_is_data: "fs_Lstat fs dir = Inr NonDir \<Longrightarrow> hasFilesInDirectory fs dir"
  by (simp add: hasFilesInDirectory_iff)

subsection \<open>Timeouts\<close>

text \<open>
  C39: a configuration that is accepted has a heartbeat of at least one millisecond and an election
  timeout of at least ten heartbeats, unless ten heartbeats exceed 64 bits; the values are the
  configured ones where they are set, and etcd listens on the URLs it advertises.
\<close>

theorem buildEtcdConfig_timeouts:
  assumes "buildEtcdConfig fs E config = Ok cfg" and "10 * uint (cc_HeartbeatMs (lc_ClusterConfig config)) < 2 ^ 64"
  shows "1 \<le> uint (ec_TickMs cfg) \<and> 10 * uint (ec_TickMs cfg) \<le> uint (ec_ElectionMs cfg)
    \<and> (cc_HeartbeatMs (lc_ClusterConfig config) \<noteq> 0 \<longrightarrow> ec_TickMs cfg = cc_HeartbeatMs (lc_ClusterConfig config))
    \<and> (cc_ElectionMs (lc_ClusterConfig config) \<noteq> 0 \<longrightarrow> ec_ElectionMs cfg = cc_ElectionMs (lc_ClusterConfig config))
    \<and> ec_ListenClientUrls cfg = ec_AdvertiseClientUrls cfg \<and> ec_ListenPeerUrls cfg = ec_AdvertisePeerUrls cfg"
proof -
  define cc where "cc = lc_ClusterConfig config"
  define tick where "tick = (if cc_HeartbeatMs cc > 0 then cc_HeartbeatMs cc else 100)"
  have tick: "1 \<le> uint tick" "10 * uint tick < 2 ^ 64"
    using assms(2) by (auto simp: tick_def cc_def word_less_def)
  have pos: "0 < uint (cc_HeartbeatMs cc) \<longleftrightarrow> cc_HeartbeatMs cc \<noteq> 0"
    using word_gt_0 [of "cc_HeartbeatMs cc"] by (simp add: word_less_def)
  have "uint (10 * tick) = 10 * uint tick"
    using tick(2) by (simp add: uint_word_ariths)
  then show ?thesis
    using assms(1) tick pos
    by (auto simp: buildEtcdConfig_def Let_def word_less_def tick_def cc_def
        split: outcome.splits sum.splits if_splits)
qed

text \<open>A node with a member directory and a write-ahead log, and an environment whose URLs are strings.\<close>

definition sample_fs :: file_system where
  "sample_fs =
     \<lparr>fs_Stat = (\<lambda>p. if last p = ''member'' then StatDir else StatErr True ''file does not exist''),
      fs_Lstat = (\<lambda>p. Inr (DirTree None (Entry ''0.wal'' NonDir NoEntry))),
      fs_Clean = (\<lambda>s. [s]), fs_show = concat\<rparr>"

definition sample_env :: "string embed_env" where
  "sample_env =
     \<lparr>ev_NewConfig = \<lparr>ec_Name = '''', ec_Dir = '''', ec_InitialClusterToken = '''', ec_InitialCluster = '''', ec_ClusterState = '''',
        ec_ListenClientUrls = [], ec_AdvertiseClientUrls = [], ec_ListenPeerUrls = [], ec_AdvertisePeerUrls = [],
        ec_TickMs = 0, ec_ElectionMs = 0, ec_AutoCompactionMode = '''', ec_AutoCompactionRetention = '''',
        ec_QuotaBackendBytes = 0, ec_LogLevel = ''''\<rparr>,
      ev_Parse = Inr, ev_quote = id\<rparr>"

definition sample_cfg :: "string embed_Config" where
  "sample_cfg = (case buildEtcdConfig sample_fs sample_env example_config of Ok cfg \<Rightarrow> cfg)"

lemma sample_build: "buildEtcdConfig sample_fs sample_env example_config = Ok sample_cfg"
proof -
  have "detectClusterState sample_fs ''/tmp/leibrix'' = Ok ''existing''"
    by (simp add: detectClusterState_def sample_fs_def hasFilesInDirectory_iff)
  then show ?thesis
    by (simp add: sample_cfg_def buildEtcdConfig_def Let_def example_config_def sample_env_def)
qed

theorem buildEtcdConfig_timeouts_witness:
  "10 * uint (ec_TickMs sample_cfg) \<le> uint (ec_ElectionMs sample_cfg) \<and> ec_TickMs sample_cfg = 100"
  using buildEtcdConfig_timeouts [OF sample_build] by (simp add: example_config_def)

text \<open>
  Beyond 64 bits the check is void: ten times a heartbeat of \<open>2 ^ 63\<close> milliseconds wraps around to
  zero, and an election timeout of one millisecond is accepted.
\<close>

lemma heartbeat_wraps:
  assumes "config = example_config\<lparr>lc_ClusterConfig := (lc_ClusterConfig example_config)\<lparr>cc_HeartbeatMs := 2 ^ 63, cc_ElectionMs := 1\<rparr>\<rparr>"
  shows "\<exists>cfg. buildEtcdConfig sample_fs sample_env config = Ok cfg \<and> ec_TickMs cfg = 2 ^ 63 \<and> ec_ElectionMs cfg = 1"
proof -
  have "detectClusterState sample_fs ''/tmp/leibrix'' = Ok ''existing''"
    by (simp add: detectClusterState_def sample_fs_def hasFilesInDirectory_iff)
  moreover have "(10 :: 64 word) * 2 ^ 63 = 0" by (simp add: word_eq_iff_unsigned)
  moreover have "(0 :: 64 word) < 2 ^ 63" by (simp add: word_less_def)
  ultimately show ?thesis
    unfolding assms by (simp add: buildEtcdConfig_def Let_def example_config_def sample_env_def word_less_def)
qed

subsection \<open>The life of a server\<close>

datatype ('u, 'e) server_op = OpStart file_system "'u embed_env" "('u, 'e) etcd_server" int | OpStop

text \<open>The state of a run: the server, and the etcd servers started and closed so far.\<close>

fun server_exec :: "('u, 'e) server_op \<Rightarrow> 'e LeibrixNodeServer \<times> 'e list \<times> 'e list \<Rightarrow> 'e LeibrixNodeServer \<times> 'e list \<times> 'e list" where
  "server_exec (OpStart fs E S timeout) (s, started, closed) =
     (case Server_Start fs E S timeout s of (r, s', up, down) \<Rightarrow> (s', started @ up, closed @ down))"
| "server_exec OpStop (s, started, closed) =
     (case Server_Stop s of (r, s', down) \<Rightarrow> (s', started, closed @ down))"

definition server_inv :: "'e LeibrixNodeServer \<times> 'e list \<times> 'e list \<Rightarrow> bool" where
  "server_inv = (\<lambda>(s, started, closed).
     (ns_serverState s = ServerStateInit \<and> mset started = mset closed)
   \<or> (ns_serverState s = ServerStateReady \<and> (\<exists>e. ns_embedEtcd s = Some e \<and> mset started = add_mset e (mset closed)))
   \<or> (ns_serverState s = ServerStateStopped \<and> mset started = mset closed))"

lemma server_exec_inv: "server_inv st \<Longrightarrow> server_inv (server_exec op st)"
  by (cases st; cases op)
    (auto simp: server_inv_def Server_Start_def Server_Stop_def markReady_def split: outcome.splits sum.splits option.splits)

lemma server_run_inv: "server_inv (fold server_exec ops (NewLeibrixNodeServer config, [], []))"
proof -
  have "server_inv st \<Longrightarrow> server_inv (fold server_exec ops st)" for st
    by (induction ops arbitrary: st) (simp_all add: server_exec_inv)
  then show ?thesis by (simp add: server_inv_def NewLeibrixNodeServer_def)
qed

text \<open>
  C11: no call sequence leaks an etcd server.  After any sequence of \<open>Start\<close> and \<open>Stop\<close>, whatever
  the file system and etcd answer, the server is in one of its three states, and every etcd
  server that was started has been closed, except the one it holds when it is ready; \<open>Stop\<close> then
  closes that one.
\<close>

theorem server_lifecycle:
  assumes "fold server_exec ops (NewLeibrixNodeServer config, [], []) = (s, started, closed)"
  shows "GetServerState s \<in> {''init'', ''ready'', ''stopped''}
    \<and> (GetServerState s \<noteq> ''ready'' \<longrightarrow> mset started = mset closed)
    \<and> (GetServerState s = ''ready'' \<longrightarrow>
        (\<exists>e s'. mset started = add_mset e (mset closed) \<and> Server_Stop s = (Ok (), s', [e]) \<and> GetServerState s' = ''stopped''))"
  using server_run_inv [of ops config] unfolding assms
  by (auto simp: server_inv_def GetServerState_def Server_Stop_def
      intro!: exI [of _ "s\<lparr>ns_serverState := ServerStateStopped\<rparr>"])

definition sample_server_op :: "(string, nat) server_op" where
  "sample_server_op = OpStart sample_fs sample_env \<lparr>es_StartEtcd = (\<lambda>c. Inr 7), es_wait = (\<lambda>t e. None)\<rparr> 0"

lemma sample_server_run:
  "fold server_exec [sample_server_op] (NewLeibrixNodeServer example_config, [], [])
   = (markReady 7 (NewLeibrixNodeServer example_config), [7], [])"
  by (simp add: sample_server_op_def Server_Start_def NewLeibrixNodeServer_def sample_build)

theorem server_lifecycle_witness:
  "\<exists>s'. Server_Stop (markReady 7 (NewLeibrixNodeServer example_config)) = (Ok (), s', [7 :: nat])
    \<and> GetServerState s' = ''stopped''"
  using server_lifecycle [OF sample_server_run]
  by (auto simp: GetServerState_def markReady_def NewLeibrixNodeServer_def)

text \<open>
  Two calls of \<open>Start\<close> that overlap both pass the check and both add to the state: the server
  counts as stopped while two etcd servers run, and \<open>Stop\<close> closes neither.
\<close>

lemma concurrent_Start:
  "GetServerState (markReady e2 (markReady e1 (NewLeibrixNodeServer config))) = ''stopped''"
  "Server_Stop (markReady e2 (markReady e1 (NewLeibrixNodeServer config)))
   = (Ok (), markReady e2 (markReady e1 (NewLeibrixNodeServer config)), [])"
  by (simp_all add: GetServerState_def Server_Stop_def markReady_def NewLeibrixNodeServer_def)

end
