(* ===== verification/GRPC_Server.thy ===== *)
theory GRPC_Server
  imports Control_Plane Management_Service Election
begin

text \<open>
  \<open>internal/api/grpc/lanuch_grpc_server.go\<close>: the gRPC server with its two services, their health
  status and the watcher that follows the leadership.  The gRPC library is not modelled: what its
  calls answer is an argument, and the health service is the last status set for each name.  The
  session manager is shared with the control plane service, and the election is the leadership
  provider.
\<close>

abbreviation ManagementName :: string where "ManagementName \<equiv> ''leibrix.ManagementService''"
abbreviation ControlPlaneName :: string where "ControlPlaneName \<equiv> ''leibrix.ControlPlaneService''"

record ('s, 'md, 'm, 'mw, 'mp, 'mc) LeibrixGRPCServer =
  gs_config :: LeibrixConfig
  gs_health :: "string \<Rightarrow> bool option"
  gs_managementSvc :: "'s ManagementRPCService"
  gs_controlPlaneSvc :: "('md, 'm, 'mw, 'mp, 'mc) ControlPlaneService"
  gs_leadershipStop :: "64 word option"
  gs_listenAddr :: string

text \<open>The election as seen through the interface, at the moment of a call.\<close>

definition provider :: "LeibrixLeaderElection \<Rightarrow> LeadershipProvider" where
  "provider l = \<lparr>lp_IsLeader = IsLeader l, lp_LeaderName = LeaderName l\<rparr>"

definition setServingState ::
  "bool \<Rightarrow> ('s, 'md, 'm, 'mw, 'mp, 'mc) LeibrixGRPCServer \<Rightarrow> ('s, 'md, 'm, 'mw, 'mp, 'mc) LeibrixGRPCServer" where
  "setServingState serving s = s\<lparr>gs_health := (gs_health s)(ManagementName \<mapsto> serving, ControlPlaneName \<mapsto> serving)\<rparr>"

text \<open>The list holds the etcd clients that were closed again.\<close>

definition NewGRPCServer ::
  "(clientv3_Config \<Rightarrow> go_error + 's etcd_client) \<Rightarrow> ('s etcd_client \<Rightarrow> string \<Rightarrow> go_error option)
   \<Rightarrow> (string, session_ref, 'm) xmap \<Rightarrow> (string, EventHandler, 'md) xmap \<Rightarrow> ('st, 'mw, 'mp, 'mc) store_maps
   \<Rightarrow> LeibrixConfig \<Rightarrow> LeibrixLeaderElection option
   \<Rightarrow> ('s, 'md, 'm, 'mw, 'mp, 'mc) LeibrixGRPCServer outcome \<times> 's etcd_client list" where
  "NewGRPCServer clientv3_New cli_Status X D S config leadership =
     (case NewManagementService clientv3_New cli_Status config (map_option provider leadership) of
        (Err err, clis) \<Rightarrow> (Err (''failed to create ManagementService: '' @ err), clis)
      | (Panic p, clis) \<Rightarrow> (Panic p, clis)
      | (Ok managementSvc, clis) \<Rightarrow>
          (Ok \<lparr>gs_config = config,
               gs_health = [ManagementName \<mapsto> True, ControlPlaneName \<mapsto> True],
               gs_managementSvc = managementSvc,
               gs_controlPlaneSvc = NewControlPlaneService D S config (NewEventDispatcher D) (NewSessionManager X) (map_option provider leadership),
               gs_leadershipStop = None,
               gs_listenAddr = nc_HostName (lc_Node config) @ '':'' @ string_of_int (nc_RPCPort (lc_Node config))\<rparr>, clis))"

definition registerLeadershipWatcher ::
  "('s, 'md, 'm, 'mw, 'mp, 'mc) LeibrixGRPCServer \<times> LeibrixLeaderElection option
   \<Rightarrow> ('s, 'md, 'm, 'mw, 'mp, 'mc) LeibrixGRPCServer \<times> LeibrixLeaderElection option" where
  "registerLeadershipWatcher = (\<lambda>(s, leadership).
     (case leadership of
        None \<Rightarrow> (s, leadership)
      | Some l \<Rightarrow>
          if gs_leadershipStop s \<noteq> None then (s, leadership)
          else (case Watch l of (i, l') \<Rightarrow> (s\<lparr>gs_leadershipStop := Some i\<rparr>, Some l'))))"

definition unregisterLeadershipWatcher ::
  "('s, 'md, 'm, 'mw, 'mp, 'mc) LeibrixGRPCServer \<times> LeibrixLeaderElection option
   \<Rightarrow> ('s, 'md, 'm, 'mw, 'mp, 'mc) LeibrixGRPCServer \<times> LeibrixLeaderElection option" where
  "unregisterLeadershipWatcher = (\<lambda>(s, leadership).
     (case gs_leadershipStop s of
        None \<Rightarrow> (s, leadership)
      | Some i \<Rightarrow> (s\<lparr>gs_leadershipStop := None\<rparr>, map_option (removeListener i) leadership)))"

text \<open>Closing the shared session manager.\<close>

definition closeSessionManager ::
  "(string, session_ref, 'm) xmap \<Rightarrow> ('s, 'md, 'm, 'mw, 'mp, 'mc) LeibrixGRPCServer \<times> 'msg session_heap
   \<Rightarrow> (('s, 'md, 'm, 'mw, 'mp, 'mc) LeibrixGRPCServer \<times> 'msg session_heap) outcome" where
  "closeSessionManager X = (\<lambda>(s, h).
     (case SessionManager_Close X (cps_sessionManager (gs_controlPlaneSvc s), h) of
        Ok (sm, h') \<Rightarrow> Ok (s\<lparr>gs_controlPlaneSvc := (gs_controlPlaneSvc s)\<lparr>cps_sessionManager := sm\<rparr>\<rparr>, h')
      | Err e \<Rightarrow> Err e
      | Panic p \<Rightarrow> Panic p))"

definition handleLeaderEvent ::
  "(string, session_ref, 'm) xmap \<Rightarrow> LeaderEvent \<Rightarrow> ('s, 'md, 'm, 'mw, 'mp, 'mc) LeibrixGRPCServer \<times> 'msg session_heap
   \<Rightarrow> (('s, 'md, 'm, 'mw, 'mp, 'mc) LeibrixGRPCServer \<times> 'msg session_heap) outcome" where
  "handleLeaderEvent X ev = (\<lambda>(s, h).
     (let isLocalLeader = (case lev_Member ev of None \<Rightarrow> False | Some m \<Rightarrow> mn_Name m = nc_NodeName (lc_Node (gs_config s)))
      in if lev_Type ev = EvtLeaderElected \<and> isLocalLeader then Ok (setServingState True s, h)
         else closeSessionManager X (setServingState False s, h)))"

text \<open>The listener that the server registers; it is not interested in the members.\<close>

definition listener_OnLeaderChange ::
  "(string, session_ref, 'm) xmap \<Rightarrow> LeaderEvent \<Rightarrow> ('s, 'md, 'm, 'mw, 'mp, 'mc) LeibrixGRPCServer \<times> 'msg session_heap
   \<Rightarrow> (('s, 'md, 'm, 'mw, 'mp, 'mc) LeibrixGRPCServer \<times> 'msg session_heap) outcome" where
  "listener_OnLeaderChange X ev st = handleLeaderEvent X ev st"

definition listener_OnMembershipChange ::
  "MembershipEvent \<Rightarrow> ('s, 'md, 'm, 'mw, 'mp, 'mc) LeibrixGRPCServer \<Rightarrow> ('s, 'md, 'm, 'mw, 'mp, 'mc) LeibrixGRPCServer" where
  "listener_OnMembershipChange ev s = s"

text \<open>
  \<open>Start\<close> up to the point where the server listens, and what it returns when it ends: the context
  is cancelled, or serving fails.  The argument \<open>other\<close> is what the goroutines of the election do
  between the question whether the node leads and the registration of the watcher.
\<close>

definition GRPC_Start ::
  "(string \<Rightarrow> go_error option) \<Rightarrow> (LeibrixLeaderElection \<Rightarrow> LeibrixLeaderElection)
   \<Rightarrow> ('s, 'md, 'm, 'mw, 'mp, 'mc) LeibrixGRPCServer \<times> LeibrixLeaderElection option
   \<Rightarrow> go_error option \<times> ('s, 'md, 'm, 'mw, 'mp, 'mc) LeibrixGRPCServer \<times> LeibrixLeaderElection option" where
  "GRPC_Start net_Listen other = (\<lambda>(s, leadership).
     (let s1 = setServingState (case leadership of None \<Rightarrow> True | Some l \<Rightarrow> IsLeader l) s
      in (map_option (\<lambda>err. ''failed to listen on '' @ gs_listenAddr s @ '': '' @ err) (net_Listen (gs_listenAddr s)),
          registerLeadershipWatcher (s1, map_option other leadership))))"

datatype start_end = CtxDone go_error | ServeFailed go_error

text \<open>
  The final \<open>select\<close>, given the context's error and the error of \<open>Serve\<close> when there are; the pick
  decides when both are there, and \<^term>\<open>None\<close> says that \<open>Start\<close> goes on waiting, as it does when
  \<open>Serve\<close> returns without an error.
\<close>

fun startSelect :: "bool \<Rightarrow> go_error option \<Rightarrow> go_error option \<Rightarrow> start_end option" where
  "startSelect pick None None = None"
| "startSelect pick (Some ctxErr) None = Some (CtxDone ctxErr)"
| "startSelect pick None (Some serveErr) = Some (ServeFailed serveErr)"
| "startSelect pick (Some ctxErr) (Some serveErr) = Some (if pick then CtxDone ctxErr else ServeFailed serveErr)"

definition initiateShutdown ::
  "('s, 'md, 'm, 'mw, 'mp, 'mc) LeibrixGRPCServer \<Rightarrow> ('s, 'md, 'm, 'mw, 'mp, 'mc) LeibrixGRPCServer" where
  "initiateShutdown s = setServingState False s"

fun GRPC_Start_end ::
  "start_end \<Rightarrow> ('s, 'md, 'm, 'mw, 'mp, 'mc) LeibrixGRPCServer \<Rightarrow> go_error \<times> ('s, 'md, 'm, 'mw, 'mp, 'mc) LeibrixGRPCServer" where
  "GRPC_Start_end (CtxDone err) s = (err, initiateShutdown s)"
| "GRPC_Start_end (ServeFailed err) s = (''server error: '' @ err, s)"

text \<open>\<open>Shutdown\<close>; the argument is the context's error when the graceful stop does not end in time.\<close>

datatype grpc_action = ManagementClosed | GracefulStopped | ForcedStop

definition GRPC_Shutdown ::
  "(string, session_ref, 'm) xmap \<Rightarrow> go_error option
   \<Rightarrow> ('s, 'md, 'm, 'mw, 'mp, 'mc) LeibrixGRPCServer \<times> LeibrixLeaderElection option \<times> 'msg session_heap
   \<Rightarrow> (go_error option \<times> grpc_action list
       \<times> ('s, 'md, 'm, 'mw, 'mp, 'mc) LeibrixGRPCServer \<times> LeibrixLeaderElection option \<times> 'msg session_heap) outcome" where
  "GRPC_Shutdown X ctxErr = (\<lambda>(s, leadership, h).
     (case unregisterLeadershipWatcher (s, leadership) of
        (s1, leadership') \<Rightarrow>
          (case closeSessionManager X (setServingState False s1, h) of
             Err e \<Rightarrow> Err e
           | Panic p \<Rightarrow> Panic p
           | Ok (s2, h') \<Rightarrow>
               Ok (ctxErr, [ManagementClosed, if ctxErr = None then GracefulStopped else ForcedStop], s2, leadership', h'))))"

definition GRPC_Stop ::
  "('s, 'md, 'm, 'mw, 'mp, 'mc) LeibrixGRPCServer \<Rightarrow> grpc_action list \<times> ('s, 'md, 'm, 'mw, 'mp, 'mc) LeibrixGRPCServer" where
  "GRPC_Stop s = ([ForcedStop], s)"

text \<open>
  The server without an election, which always serves.  The background context never ends, so it
  returns only with an error, and \<^term>\<open>None\<close> says that it goes on serving.
\<close>

definition LeibrixMasterGRPCServer ::
  "(clientv3_Config \<Rightarrow> go_error + 's etcd_client) \<Rightarrow> ('s etcd_client \<Rightarrow> string \<Rightarrow> go_error option)
   \<Rightarrow> (string, session_ref, 'm) xmap \<Rightarrow> (string, EventHandler, 'md) xmap \<Rightarrow> ('st, 'mw, 'mp, 'mc) store_maps
   \<Rightarrow> (string \<Rightarrow> go_error option) \<Rightarrow> go_error option \<Rightarrow> LeibrixConfig \<Rightarrow> go_error option outcome" where
  "LeibrixMasterGRPCServer clientv3_New cli_Status X D S net_Listen serveErr config =
     (case NewGRPCServer clientv3_New cli_Status X D S config None of
        (Err err, clis) \<Rightarrow> Ok (Some err)
      | (Panic p, clis) \<Rightarrow> Panic p
      | (Ok server, clis) \<Rightarrow>
          (case GRPC_Start net_Listen id (server, None) of
             (Some err, server', l) \<Rightarrow> Ok (Some err)
           | (None, server', l) \<Rightarrow> Ok (map_option (\<lambda>e. fst (GRPC_Start_end e server')) (startSelect True None serveErr))))"

subsection \<open>The client's address\<close>

text \<open>The metadata and the peer of a call; \<open>TrimSpace\<close>, \<open>ParseIP\<close> and \<open>SplitHostPort\<close> are arguments.\<close>

datatype peer_addr = NoPeer | TCPPeer string | OtherPeer string

definition getClientIp ::
  "(string \<Rightarrow> string) \<Rightarrow> (string \<Rightarrow> bool) \<Rightarrow> (string \<Rightarrow> string option) \<Rightarrow> (string \<Rightarrow> string list) option \<Rightarrow> peer_addr \<Rightarrow> string" where
  "getClientIp TrimSpace isIP SplitHostPort md peer =
     (let fromHeader = (\<lambda>name f. case md of
             None \<Rightarrow> None
           | Some get \<Rightarrow> (case get name of
                            [] \<Rightarrow> None
                          | v # _ \<Rightarrow> (let clientIP = TrimSpace (f v) in if isIP clientIP then Some clientIP else None)))
      in case fromHeader ''x-forwarded-for'' (takeWhile (\<lambda>c. c \<noteq> CHR '','')) of
           Some ip \<Rightarrow> ip
         | None \<Rightarrow>
           (case fromHeader ''x-real-ip'' id of
              Some ip \<Rightarrow> ip
            | None \<Rightarrow>
              (case peer of
                 NoPeer \<Rightarrow> ''unknown''
               | TCPPeer ip \<Rightarrow> ip
               | OtherPeer addr \<Rightarrow> (case SplitHostPort addr of Some ip \<Rightarrow> ip | None \<Rightarrow> addr))))"

subsection \<open>What the watcher achieves\<close>

definition serving :: "('s, 'md, 'm, 'mw, 'mp, 'mc) LeibrixGRPCServer \<Rightarrow> bool" where
  "serving s \<longleftrightarrow> gs_health s ManagementName = Some True \<and> gs_health s ControlPlaneName = Some True"

lemma serving_setServingState [simp]: "serving (setServingState b s) \<longleftrightarrow> b"
  by (simp add: serving_def setServingState_def)

lemma setServingState_simps [simp]:
  "gs_config (setServingState b s) = gs_config s" "gs_controlPlaneSvc (setServingState b s) = gs_controlPlaneSvc s"
  "gs_leadershipStop (setServingState b s) = gs_leadershipStop s"
  by (simp_all add: setServingState_def)

text \<open>
  After \<open>Start\<close> the node serves exactly when it was leader before \<open>other\<close>; a change of the role in
  between reaches nobody, since the watcher is registered later.
\<close>

lemma GRPC_Start_serving:
  assumes "GRPC_Start net_Listen other (s, Some l) = (err, s', l')"
  shows "serving s' \<longleftrightarrow> IsLeader l"
  using assms
  by (auto simp: GRPC_Start_def registerLeadershipWatcher_def Let_def serving_def setServingState_def split: if_splits prod.splits)

context session_map
begin

lemma closeSessionManager_ends:
  assumes "refines X (cps_sessionManager (gs_controlPlaneSvc s), h) a"
  shows "\<exists>sm h'. closeSessionManager X (s, h) = Ok (s\<lparr>gs_controlPlaneSvc := (gs_controlPlaneSvc s)\<lparr>cps_sessionManager := sm\<rparr>\<rparr>, h')
    \<and> refines X (sm, h') (spec_exec SmClose a)"
  using refines_exec [OF assms, of SmClose] by (auto simp: closeSessionManager_def)

lemma handleLeaderEvent_effect:
  fixes s :: "('s, 'md, 'm, 'mw, 'mp, 'mc) LeibrixGRPCServer"
  assumes "refines X (cps_sessionManager (gs_controlPlaneSvc s), h) a"
    and "elected \<longleftrightarrow> lev_Type ev = EvtLeaderElected \<and> map_option mn_Name (lev_Member ev) = Some (nc_NodeName (lc_Node (gs_config s)))"
  shows "\<exists>s' h'. handleLeaderEvent X ev (s, h) = Ok (s', h') \<and> (serving s' \<longleftrightarrow> elected)
    \<and> refines X (cps_sessionManager (gs_controlPlaneSvc s'), h') (if elected then a else spec_exec SmClose a)"
proof (cases "elected")
  case True
  then show ?thesis using assms by (auto simp: handleLeaderEvent_def)
next
  case False
  obtain sm h' where closed: "closeSessionManager X (setServingState False s, h) =
        Ok (setServingState False s\<lparr>gs_controlPlaneSvc := (gs_controlPlaneSvc s)\<lparr>cps_sessionManager := sm\<rparr>\<rparr>, h')"
      "refines X (sm, h') (spec_exec SmClose a)"
    using closeSessionManager_ends [of "setServingState False s" h a] assms(1) by auto
  have "handleLeaderEvent X ev (s, h) = closeSessionManager X (setServingState False s, h)"
    using False assms(2) by (auto simp: handleLeaderEvent_def split: option.splits)
  with closed False show ?thesis by (auto simp: serving_def setServingState_def)
qed

end

end
