(* ===== verification/Main_Program.thy ===== *)
theory Main_Program
  imports GRPC_Server Node_Server Runtime_Logger
begin

text \<open>
  \<open>cmd/main.go\<close>: starting the embedded etcd server, the leader election and the gRPC server, waiting
  for a reason to stop, and stopping them in the reverse order.  Everything outside the repository
  that the three services use is one record.  Results also list the embedded etcd servers that
  were started and closed.
\<close>

record ('u, 'e, 's, 'md, 'm, 'st, 'mw, 'mp, 'mc) outside =
  o_fs :: file_system
  o_embed :: "'u embed_env"
  o_etcd :: "('u, 'e) etcd_server"
  o_loggerErr :: "go_error option"
  o_clientv3_New :: "clientv3_Config \<Rightarrow> go_error + 's etcd_client"
  o_cli_Status :: "'s etcd_client \<Rightarrow> string \<Rightarrow> go_error option"
  o_json_Marshal :: "MemberNode \<Rightarrow> go_error + string"
  o_sessionErr :: "go_error option"
  o_putErr :: "go_error option"
  o_clientCloseErr :: "go_error option"
  o_sessions :: "(string, session_ref, 'm) xmap"
  o_handlers :: "(string, EventHandler, 'md) xmap"
  o_stores :: "('st, 'mw, 'mp, 'mc) store_maps"

abbreviation defaultServerStartTimeout :: int where "defaultServerStartTimeout \<equiv> 60 * 1000000000"

type_synonym ('e, 's, 'md, 'm, 'mw, 'mp, 'mc) services =
  "'e LeibrixNodeServer \<times> LeibrixLeaderElection \<times> ('s, 'md, 'm, 'mw, 'mp, 'mc) LeibrixGRPCServer"

text \<open>The calls that clean up or shut down, in order; those of the election with what they do.\<close>

datatype main_action = StopNode | CloseElection "election_action list" | ShutdownGRPC "grpc_action list"

definition startServices ::
  "('u, 'e, 's, 'md, 'm, 'st, 'mw, 'mp, 'mc) outside \<Rightarrow> LeibrixConfig
   \<Rightarrow> ('e, 's, 'md, 'm, 'mw, 'mp, 'mc) services outcome \<times> 'e list \<times> 'e list \<times> main_action list" where
  "startServices W configObj =
     (case Server_Start (o_fs W) (o_embed W) (o_etcd W) defaultServerStartTimeout (NewLeibrixNodeServer configObj) of
        (Panic p, ns, up, down) \<Rightarrow> (Panic p, up, down, [])
      | (Err err, ns, up, down) \<Rightarrow> (Err (''etcd server start failed: '' @ err), up, down, [])
      | (Ok _, ns, up, down) \<Rightarrow>
        (let stopped = down @ snd (snd (Server_Stop ns))
         in case NewLeaderElection (o_loggerErr W) (o_clientv3_New W) configObj of
              Inl err \<Rightarrow> (Err (''leader election init failed: '' @ err), up, stopped, [StopNode])
            | Inr (l, cli) \<Rightarrow>
              (case Election_Start (o_json_Marshal W) (o_sessionErr W) (o_putErr W) l of
                 (Some err, acts, l') \<Rightarrow> 
                   (Err (''leader election start failed: '' @ err), up, stopped,
                    [StopNode, CloseElection (fst (snd (Election_Close (o_clientCloseErr W) l')))])
               | (None, acts, l') \<Rightarrow>
                 (case NewGRPCServer (o_clientv3_New W) (o_cli_Status W) (o_sessions W) (o_handlers W) (o_stores W) configObj (Some l') of
                    (Err err, clis) \<Rightarrow> 
                      (Err (''gRPC server init failed: '' @ err), up, stopped,
                       [StopNode, CloseElection (fst (snd (Election_Close (o_clientCloseErr W) l')))])
                  | (Panic p, clis) \<Rightarrow> (Panic p, up, down, [])
                  | (Ok g, clis) \<Rightarrow> (Ok (ns, l', g), up, down, [])))))"

text \<open>A signal, or an error of the gRPC server.\<close>

datatype trigger = Signal string | GrpcErr go_error

fun handleShutdown :: "trigger \<Rightarrow> string \<times> go_error option" where
  "handleShutdown (Signal sig) = (''received signal: '' @ sig, None)"
| "handleShutdown (GrpcErr err) = (''gRPC server error'', Some err)"

text \<open>The errors of the three stops are only logged.\<close>

definition shutdownServices ::
  "('u, 'e, 's, 'md, 'm, 'st, 'mw, 'mp, 'mc) outside \<Rightarrow> go_error option
   \<Rightarrow> ('e, 's, 'md, 'm, 'mw, 'mp, 'mc) services \<Rightarrow> 'msg session_heap
   \<Rightarrow> (('e, 's, 'md, 'm, 'mw, 'mp, 'mc) services \<times> 'msg session_heap) outcome \<times> 'e list \<times> main_action list" where
  "shutdownServices W ctxErr = (\<lambda>(ns, l, g) h.
     (case GRPC_Shutdown (o_sessions W) ctxErr (g, Some l, h) of
        Err e \<Rightarrow> (Err e, [], [])
      | Panic p \<Rightarrow> (Panic p, [], [])
      | Ok (err, acts, g', leadership, h') \<Rightarrow>
        (case Election_Close (o_clientCloseErr W) (the leadership) of
           (err', acts', l') \<Rightarrow>
             (case Server_Stop ns of
                (Panic p, ns', down) \<Rightarrow> (Panic p, down, [ShutdownGRPC acts, CloseElection acts', StopNode])
              | (_, ns', down) \<Rightarrow> 
                  (Ok ((ns', l', g'), h'), down, [ShutdownGRPC acts, CloseElection acts', StopNode])))))"

text \<open>
  \<open>run\<close>.  While the services run, the election and the gRPC server change: \<open>during\<close> is what happens
  to them and to the sessions.
\<close>

definition run ::
  "('u, 'e, 's, 'md, 'm, 'st, 'mw, 'mp, 'mc) outside \<Rightarrow> string option \<Rightarrow> (string \<Rightarrow> go_error + LeibrixConfig)
   \<Rightarrow> (LeibrixLeaderElection \<times> ('s, 'md, 'm, 'mw, 'mp, 'mc) LeibrixGRPCServer
       \<Rightarrow> LeibrixLeaderElection \<times> ('s, 'md, 'm, 'mw, 'mp, 'mc) LeibrixGRPCServer \<times> 'msg session_heap)
   \<Rightarrow> trigger \<Rightarrow> go_error option \<Rightarrow> unit outcome \<times> 'e list \<times> 'e list \<times> main_action list" where
  "run W env load during trig ctxErr =
     (let configPath = (case env of Some p \<Rightarrow> p | None \<Rightarrow> ''./config.yaml'')
      in case load configPath of
           Inl err \<Rightarrow> (Err (''failed to load configuration: '' @ err), [], [], [])
         | Inr configObj \<Rightarrow>
           (case startServices W configObj of
              (Err err, up, down, acts) \<Rightarrow> (Err (''failed to start services: '' @ err), up, down, acts)
            | (Panic p, up, down, acts) \<Rightarrow> (Panic p, up, down, acts)
            | (Ok (ns, l, g), up, down, acts) \<Rightarrow>
              (case during (l, g) of
                 (l', g', h) \<Rightarrow>
                   (case shutdownServices W ctxErr (ns, l', g') h of
                      (Panic p, down', acts') \<Rightarrow> (Panic p, up, down @ down', acts @ acts')
                    | (Err e, down', acts') \<Rightarrow> (Err e, up, down @ down', acts @ acts')
                    | (Ok _, down', acts') \<Rightarrow>
                        ((case snd (handleShutdown trig) of None \<Rightarrow> Ok () | Some err \<Rightarrow> Err err), up, down @ down', acts @ acts')))))"

text \<open>
  The program with its initialisation: the package's logger is built first, and the election builds
  another.  The number is the exit status, 2 after a panic.
\<close>

definition main ::
  "('cfg, 'lg) zap \<Rightarrow> string option \<Rightarrow> ('u, 'e, 's, 'md, 'm, 'st, 'mw, 'mp, 'mc) outside \<Rightarrow> string option
   \<Rightarrow> (string \<Rightarrow> go_error + LeibrixConfig)
   \<Rightarrow> (LeibrixLeaderElection \<times> ('s, 'md, 'm, 'mw, 'mp, 'mc) LeibrixGRPCServer
       \<Rightarrow> LeibrixLeaderElection \<times> ('s, 'md, 'm, 'mw, 'mp, 'mc) LeibrixGRPCServer \<times> 'msg session_heap)
   \<Rightarrow> trigger \<Rightarrow> go_error option \<Rightarrow> nat \<times> 'e list \<times> 'e list \<times> main_action list" where
  "main Z runEnv W env load during trig ctxErr =
     (case InitLogger Z runEnv of
        Ok logger \<Rightarrow>
          (let loggerErr = (case BuildZapLogger Z runEnv of Inl err \<Rightarrow> Some err | Inr lg \<Rightarrow> None)
           in case run (W\<lparr>o_loggerErr := loggerErr\<rparr>) env load during trig ctxErr of
                (Ok _, rest) \<Rightarrow> (0, rest)
              | (Err err, rest) \<Rightarrow> (1, rest)
              | (Panic p, rest) \<Rightarrow> (2, rest))
      | _ \<Rightarrow> (2, [], [], []))"

subsection \<open>No etcd server is left running\<close>

lemma Server_Start_balance:
  assumes "Server_Start fs E S t (NewLeibrixNodeServer config) = (r, ns, up, down)"
  shows "(\<forall>u. r = Ok u \<longrightarrow> (\<exists>e s'. up = [e] \<and> down = [] \<and> Server_Stop ns = (Ok (), s', [e])))
    \<and> (\<forall>err. r = Err err \<longrightarrow> mset up = mset down)"
  using assms
  by (auto simp: Server_Start_def Server_Stop_def markReady_def NewLeibrixNodeServer_def
      split: outcome.splits sum.splits option.splits)

lemma startServices_balance:
  assumes "startServices W config = (r, up, down, acts)"
  shows "(\<forall>err. r = Err err \<longrightarrow> mset up = mset down)
    \<and> (\<forall>ns l g. r = Ok (ns, l, g) \<longrightarrow> (\<exists>e s'. up = [e] \<and> down = [] \<and> Server_Stop ns = (Ok (), s', [e])))"
proof -
  obtain r0 ns up0 down0 where start:
    "Server_Start (o_fs W) (o_embed W) (o_etcd W) defaultServerStartTimeout (NewLeibrixNodeServer config) = (r0, ns, up0, down0)"
    by (metis prod_cases4)
  from Server_Start_balance [OF start] assms [unfolded startServices_def start] show ?thesis
    by (cases r0) (auto simp: Let_def split: outcome.splits sum.splits option.splits prod.splits)
qed

text \<open>A shutdown that meets the session manager's specification does not fail.\<close>

lemma shutdownServices_stops:
  assumes "session_map (o_sessions W)" and "refines (o_sessions W) (cps_sessionManager (gs_controlPlaneSvc g), h) a"
    and "Server_Stop ns = (Ok (), ns', [e])"
  shows "\<exists>l' g' h' acts. shutdownServices W ctxErr (ns, l, g) h = (Ok ((ns', l', g'), h'), [e], acts) \<and> \<not> serving g'
    \<and> (\<exists>a'. refines (o_sessions W) (cps_sessionManager (gs_controlPlaneSvc g'), h') a' \<and> connected a' = Map.empty)"
proof -
  define g1 where "g1 = fst (unregisterLeadershipWatcher (g, Some l))"
  define l1 where "l1 = snd (unregisterLeadershipWatcher (g, Some l))"
  have cps: "gs_controlPlaneSvc g1 = gs_controlPlaneSvc g"
    by (simp add: g1_def unregisterLeadershipWatcher_def split: option.splits)
  obtain sm h' where closed: "closeSessionManager (o_sessions W) (setServingState False g1, h) =
        Ok (setServingState False g1\<lparr>gs_controlPlaneSvc := (gs_controlPlaneSvc g1)\<lparr>cps_sessionManager := sm\<rparr>\<rparr>, h')"
      "refines (o_sessions W) (sm, h') (spec_exec SmClose a)"
    using session_map.closeSessionManager_ends [OF assms(1), of "setServingState False g1" h a] assms(2) cps by auto
  have "unregisterLeadershipWatcher (g, Some l) = (g1, l1)" by (simp add: g1_def l1_def)
  with closed assms(3) show ?thesis
    by (auto simp: shutdownServices_def GRPC_Shutdown_def Election_Close_def serving_def setServingState_def)
qed

text \<open>
  C10: when the program ends, with or without an error, every embedded etcd server it started has
  been closed, whatever fails during the start, and a run whose services were started ends without
  a panic, with the error that stopped the gRPC server, if any.  While the services run, the
  session manager keeps to its specification.
\<close>

theorem run_closes_etcd:
  assumes "session_map (o_sessions W)"
    and "\<And>config ns l g rest l' g' h. startServices W config = (Ok (ns, l, g), rest) \<Longrightarrow> during (l, g) = (l', g', h) \<Longrightarrow>
          \<exists>a. refines (o_sessions W) (cps_sessionManager (gs_controlPlaneSvc g'), h) a"
    and "run W env load during trig ctxErr = (result, up, down, acts)"
  shows "((\<forall>p. result \<noteq> Panic p) \<longrightarrow> mset up = mset down)
    \<and> (\<forall>config ns l g rest. load (case env of Some p \<Rightarrow> p | None \<Rightarrow> ''./config.yaml'') = Inr config
         \<longrightarrow> startServices W config = (Ok (ns, l, g), rest)
         \<longrightarrow> result = (case trig of Signal sig \<Rightarrow> Ok () | GrpcErr err \<Rightarrow> Err err) \<and> mset up = mset down)"
proof (cases "load (case env of Some p \<Rightarrow> p | None \<Rightarrow> ''./config.yaml'')")
  case (Inl err)
  with assms(3) show ?thesis by (auto simp: run_def)
next
  case (Inr config)
  obtain r0 up0 down0 acts0 where start: "startServices W config = (r0, up0, down0, acts0)" by (metis prod_cases4)
  show ?thesis
  proof (cases r0)
    case (Ok svc)
    obtain ns l g where svc: "svc = (ns, l, g)" by (metis prod_cases3)
    obtain l' g' h where run: "during (l, g) = (l', g', h)" by (metis prod_cases3)
    obtain e ns' where e: "up0 = [e]" "down0 = []" "Server_Stop ns = (Ok (), ns', [e])"
      using startServices_balance [OF start] Ok svc by blast
    from assms(2) [OF start [unfolded Ok svc] run] obtain a where "refines (o_sessions W) (cps_sessionManager (gs_controlPlaneSvc g'), h) a" ..
    from shutdownServices_stops [OF assms(1) this e(3), of ctxErr l'] obtain st acts' where
      "shutdownServices W ctxErr (ns, l', g') h = (Ok st, [e], acts')" by blast
    with assms(3) Inr start Ok svc run e show ?thesis by (cases trig) (auto simp: run_def)
  next
    case (Err err)
    with startServices_balance [OF start] assms(3) Inr start show ?thesis by (auto simp: run_def)
  next
    case (Panic p)
    with assms(3) Inr start show ?thesis by (auto simp: run_def)
  qed
qed

text \<open>
  The program as a whole: with an exit status other than that of a panic it has closed what it
  started, and a status of zero means that the logger was built and the run had no error.
\<close>

lemma main_exit:
  assumes "main Z runEnv W env load during trig ctxErr = (status, rest)"
  shows "status \<le> 2 \<and> (status < 2 \<longrightarrow> (\<exists>lg. BuildZapLogger Z runEnv = Inr lg) \<and>
     (\<exists>r. run (W\<lparr>o_loggerErr := None\<rparr>) env load during trig ctxErr = (r, rest) \<and> (\<forall>p. r \<noteq> Panic p) \<and> (status = 0 \<longleftrightarrow> r = Ok ())))"
  using assms
  by (auto simp: main_def InitLogger_def Let_def split: outcome.splits sum.splits prod.splits)

text \<open>A run that is ended by a signal while no worker is connected.\<close>

definition sample_world ::
  "(string, nat, batch list, (string, EventHandler) fmap, (string, session_ref) fmap, string,
    (string, Worker) fmap, (string, DataPullStatusUpdateEvent) fmap, (string, string CommonAckEvent) fmap) outside" where
  "sample_world =
     \<lparr>o_fs = sample_fs, o_embed = sample_env, o_etcd = \<lparr>es_StartEtcd = (\<lambda>c. Inr 7), es_wait = (\<lambda>t e. None)\<rparr>,
      o_loggerErr = None, o_clientv3_New = (\<lambda>c. Inr log_client), o_cli_Status = (\<lambda>c u. None),
      o_json_Marshal = (\<lambda>m. Inr (mn_Name m)), o_sessionErr = None, o_putErr = None, o_clientCloseErr = None,
      o_sessions = fmap_xmap, o_handlers = fmap_xmap, o_stores = fmap_store_maps\<rparr>"

definition idle :: "'l \<times> 'g \<Rightarrow> 'l \<times> 'g \<times> string session_heap" where
  "idle = (\<lambda>(l, g). (l, g, \<lambda>r. NewSession None ''''))"

lemma startServices_no_sessions:
  assumes "startServices W config = (Ok (ns, l, g), rest)"
  shows "cps_sessionManager (gs_controlPlaneSvc g) = NewSessionManager (o_sessions W)"
  using assms
  by (auto simp: startServices_def Let_def NewGRPCServer_def NewControlPlaneService_def
      split: outcome.splits sum.splits option.splits prod.splits)

lemma sample_world_starts: "\<exists>ns l g rest. startServices sample_world example_config = (Ok (ns, l, g), rest)"
proof -
  have "cc_ListenClientUrls (lc_ClusterConfig example_config) = [''http://localhost:2379'']"
    by (simp add: example_config_def)
  then show ?thesis
    by (simp add: startServices_def sample_world_def Server_Start_def NewLeibrixNodeServer_def sample_build Let_def
        NewLeaderElection_def Election_Start_def registerMember_def NewGRPCServer_def NewManagementService_def NewEtcdClient_def)
qed

theorem run_closes_etcd_witness:
  "\<exists>up down acts. run sample_world None (\<lambda>p. Inr example_config) idle (Signal ''interrupt'') None = (Ok (), up, down, acts)
    \<and> mset up = mset down"
proof -
  obtain result up down acts where run:
    "run sample_world None (\<lambda>p. Inr example_config) idle (Signal ''interrupt'') None = (result, up, down, acts)"
    by (metis prod_cases4)
  have sessions: "o_sessions sample_world = fmap_xmap" by (simp add: sample_world_def)
  have new: "\<exists>a. refines fmap_xmap (NewSessionManager fmap_xmap :: (string, session_ref) fmap SessionManager,
      \<lambda>r. NewSession None '''' :: string Session) a"
    using fmap_sessions.refines_new [of "\<lambda>r. NewSession None ''''"] by (auto simp: sound_session_def NewSession_def)
  have "result = Ok () \<and> mset up = mset down"
    using run_closes_etcd [OF _ _ run] sample_world_starts new
    by (auto simp: sessions fmap_sessions.session_map_axioms idle_def startServices_no_sessions)
  with run show ?thesis by simp
qed

end
