(* ===== verification/Spec2Isabelle.thy ===== *)
theory Spec2Isabelle
  imports Epoch_Requests Epoch_Identity Management_Correctness Session_Manager_Examples Leader_Loss
    Election_Shutdown Node_Server GRPC_Server Main_Program
begin

text \<open>
  A verification of the control plane of Leibrix, a Go program whose nodes embed etcd, elect a
  leader, admit datasets as lists of time epochs, and coordinate workers over gRPC streams.  The
  definitions translate the sources under \<open>src/\<close>, one definition for each function or step.

  \<^bold>\<open>Conventions.\<close>  A Go function that may fail returns \<open>outcome\<close> (a value, an error, a panic) and
  a handler returns \<open>rpc\<close>.  A loop that may not end, and a call that blocks, is an option.  Machine
  integers that can wrap are words; instants are integers of nanoseconds, with the 64-bit arithmetic
  of package \<open>time\<close> where it shows (\<open>Time_Range\<close>).  Memory is unbounded.
  Code that is not part of the repository is an argument: the etcd client, the protobuf runtime,
  the concurrent maps of \<open>xsync\<close>, JSON and YAML, the clock, the file system and the embedded etcd
  server.  What the program relies on is the \<open>assumes\<close> of a locale (\<open>timestamp_codec\<close>,
  \<open>etcd_service\<close>, \<open>etcd_alone\<close>, \<open>message_codec\<close>, \<open>protobuf_runtime\<close>, \<open>xsync_map\<close>, \<open>session_map\<close>,
  \<open>state_maps\<close>), and each has an interpretation on concrete functions.

  \<^bold>\<open>Epochs.\<close>  \<open>Proto_Types\<close> has the messages of \<open>common.proto\<close> and \<open>management_service.proto\<close>,
  \<open>Calendar\<close> the proleptic Gregorian calendar, \<open>Time_Range\<close> the ends of the range of \<open>time.Time\<close>: steps
  back in time wrap around or saturate as in Go, and steps forward from the years 1 to 9999 are shown
  to be exact.  \<open>SHA256\<close> is the hash of the identifiers, and \<open>Epoch_Generator\<close> has the functions of \<open>epoch_generator.go\<close>.  \<open>Epoch_Grid\<close> and \<open>Epoch_Slicing\<close> show
  that the slices of a range are consecutive, aligned and cover every instant once;
  \<open>Epoch_Requests\<close> which requests give epochs (negative days and weeks among them), which fail, and
  which never return;
  \<open>Epoch_Identity\<close> when identifiers differ and sort.

  \<^bold>\<open>Management service.\<close>  \<open>Config\<close> (\<open>config.go\<close> and the keys of \<open>common_utils.go\<close>),
  \<open>Leadership\<close> (\<open>leadership.go\<close>), \<open>Etcd_Client\<close> (what the program relies on of etcd),
  \<open>Proto_Serde\<close> (\<open>proto_serde.go\<close>) and \<open>Management_Service\<close> (\<open>management_service.go\<close>).
  \<open>Management_Correctness\<close> shows what an accepted admission has stored, that a concurrent update
  loses no epoch, that the first admission may, and which keys are written.

  \<^bold>\<open>Control plane.\<close>  \<open>Control_Types\<close> has the messages of \<open>control_plane.proto\<close>, \<open>XSync_Map\<close> the laws
  of the concurrent map.  \<open>Session\<close> (\<open>session.go\<close>) is a step relation of senders, closers and the
  writer: order, finality of closing, return of the writer.  \<open>Session_Manager\<close>
  (\<open>session_manager.go\<close>) refines a map of connected workers with the set of ended sessions.
  \<open>State_Handlers\<close> (\<open>state_handlers.go\<close>, \<open>heartbeat_handler.go\<close>, \<open>event_dispatcher.go\<close>) and
  \<open>Control_Plane\<close> (\<open>control_plane_service.go\<close>) show what events record, how they are answered, and
  what is left when a stream ends.  There each operation of the manager is one step.
  \<open>Manager_Interleaving\<close> takes the operations apart into their accesses to the map, the counter and
  the sessions, with any number of calls in progress: what the counter is worth at every moment,
  which sessions a shutdown closes, and what a registration during a shutdown can lose.
  \<open>Worker_Streams\<close> puts any number of calls of \<open>CoordinateWorker\<close> on top of it, statement by statement,
  with the leadership changing meanwhile: what the map holds belongs to streams that still run, a
  worker that shares its name with nobody can be reached, and a registration can come too late for
  a shutdown.  \<open>Stream_Progress\<close> shows that a stream whose session has ended returns in every fair
  run, and \<open>Leader_Loss\<close> that closing the manager ends the streams of the workers connected then, as
  long as they do not register again.
  \<open>Session_Manager_Examples\<close> (\<open>session_manager_example.go\<close>) has the intended uses of the manager.

  \<^bold>\<open>Cluster.\<close>  \<open>Cluster_Events\<close> (\<open>cluster_event.go\<close>, \<open>membership_listener.go\<close>, the decoding of member
  keys) and \<open>Election\<close> (\<open>election.go\<close>): the sinks of listeners with the interference of other
  goroutines between their statements, and campaign, observer, listeners and shutdown as a step
  relation in which the answers of etcd are free.  There a change of the role and the broadcast that
  follows are one step.  \<open>Election_Interleaving\<close> is the same code as a machine in which every
  statement that touches shared state is a step of its own: both broadcasts, each of the three
  \<open>select\<close>s of \<open>enqueueLeader\<close>, and the two \<open>select\<close>s of a listener.  \<open>Election_Delivery\<close> shows that
  its states are well formed, that it refines the coarse relation, and that the newest report
  reaches the listeners as long as no end of a term was announced; \<open>Election_Shutdown\<close> that the
  campaign returns in every fair run after \<open>Close\<close> if etcd answers its resignation, that it holds the
  lock until then, and a run in which the report of a term overtakes the announcement of its end.
  \<open>Transition_Runs\<close> has what these machines share: labelled steps, simulation, fair runs, and a
  locale for progress by a rank.  \<open>Node_Server\<close>
  (\<open>server.go\<close>) shows when a node bootstraps, the bounds on the timeouts, and that no etcd server
  is leaked.

  \<^bold>\<open>The program.\<close>  \<open>GRPC_Server\<close> (\<open>lanuch_grpc_server.go\<close>), \<open>Runtime_Logger\<close> (the loggers of
  \<open>common_utils.go\<close>) and \<open>Main_Program\<close> (\<open>main.go\<close>).  The theorems below follow a report of a leader
  from the observer through the listener's sink to the health status and the sessions, and show that
  the node may serve for a term that has ended.

  \<^bold>\<open>Bounds.\<close>  No fuel is used.  The slicing loop is a partial function whose result is shown to exist for
  usable granularities and for negative days and weeks, and not to exist for a value of zero and for
  negative hours; nothing is claimed of negative months.  The counters of sessions are unbounded
  integers, since they count entries of a map in memory.

  \<^bold>\<open>Not modelled.\<close>  What is written to the log, and \<open>logRuntimeInfo\<close>, which only logs; the code
  generated from the \<open>.proto\<close> files; timers, except as the choice of which channel is ready first;
  the transport of gRPC and its options \<open>grpcOpts\<close>; the order in which weak memory could show the
  accesses that are steps here, since the code makes them through channels, locks and atomics.
\<close>

subsection \<open>A change of leader\<close>



text \<open>A node that watches its election learns that another node leads.\<close>

definition watched_election :: LeibrixLeaderElection where
  "watched_election = snd (Watch sample_election)"

definition node1_server ::
  "(batch list, (string, EventHandler) fmap, (string, session_ref) fmap, (string, Worker) fmap,
    (string, DataPullStatusUpdateEvent) fmap, (string, string CommonAckEvent) fmap) LeibrixGRPCServer" where
  "node1_server =
     (case fst (NewGRPCServer (\<lambda>c. Inr log_client) (\<lambda>c u. None) fmap_xmap fmap_xmap fmap_store_maps example_config
        (Some watched_election)) of Ok s \<Rightarrow> s)"

lemma node1_server_simps:
  "gs_config node1_server = example_config"
  "cps_sessionManager (gs_controlPlaneSvc node1_server) = NewSessionManager fmap_xmap"
  "serving node1_server"
  by (simp_all add: node1_server_def NewGRPCServer_def NewManagementService_def NewEtcdClient_def NewControlPlaneService_def
      example_config_def serving_def)


subsection \<open>Serving for a term that has ended\<close>

text \<open>
  C40: the announcement that a term has ended can be overtaken by the report of its beginning.  The
  session of the leader expires and both broadcasts have ended; the node is not the leader and
  refuses calls as such.  The event left for the watcher of the gRPC server still says that the
  node was elected, and handling it makes a server that did not serve report that it serves,
  with its sessions kept.
\<close>

theorem expired_leader_serves:
  fixes h :: "'msg session_heap"
  shows "net_reachable sample_election overtaken \<and> en_announce overtaken = Quiet \<and> en_report overtaken = Quiet
    \<and> en_expired overtaken \<and> \<not> IsLeader (en_l overtaken)
    \<and> requireLeader (Some (provider (en_l overtaken))) (nc_NodeName (lc_Node (gs_config node1_server))) \<noteq> None
    \<and> (\<exists>ev s'. fst (listenerTurn [CaseLeader] id [] (le_sinks (en_l overtaken) 1)) = DeliverLeader ev
         \<and> listener_OnLeaderChange fmap_xmap ev (setServingState False node1_server, h) = Ok (s', h) \<and> serving s')"
proof -
  have "fst (listenerTurn [CaseLeader] id [] (le_sinks (en_l overtaken) 1)) = DeliverLeader (elected_event node1_leads)"
    by (simp add: listenerTurn_def overtaken_simps)
  moreover have "\<exists>s'. listener_OnLeaderChange fmap_xmap (elected_event node1_leads) (setServingState False node1_server, h) = Ok (s', h)
      \<and> serving s'"
    by (simp add: listener_OnLeaderChange_def handleLeaderEvent_def elected_event_def node1_leads_def member_named_def
        node1_server_simps example_config_def)
  moreover have "requireLeader (Some (provider (en_l overtaken))) name \<noteq> None" for name
    by (simp add: requireLeader_None_iff provider_def overtaken_simps)
  ultimately show ?thesis using overtaken_reachable overtaken_simps by blast
qed

end
